theory Spec2Isabelle
  imports Complex_Main "HOL-Library.Word" "HOL-Library.Monad_Syntax"
begin

unbundle bit_operations_syntax

section \<open>Packet framer and checksum of the AUX air conditioner component\<close>

text \<open>
  The development follows \<^verbatim>\<open>aux_ac_custom_component.h\<close>. Source names are kept; the
  leading underscore of private members is dropped, since an Isabelle name cannot start
  with one. A result of type \<open>'a option\<close> is \<open>None\<close> exactly where the C++ would access
  memory through a null pointer or outside an array.
\<close>

subsection \<open>Constants\<close>

definition AC_HEADER_SIZE :: nat where "AC_HEADER_SIZE = 8"
definition AC_MAX_BODY_SIZE :: nat where "AC_MAX_BODY_SIZE = 24"
definition AC_BUFFER_SIZE :: nat where "AC_BUFFER_SIZE = 34"
definition AC_PACKET_TIMEOUT :: nat where "AC_PACKET_TIMEOUT = 150"

definition AC_PTYPE_PING :: "8 word" where "AC_PTYPE_PING = 0x01"
definition AC_PTYPE_CMD :: "8 word" where "AC_PTYPE_CMD = 0x06"
definition AC_PTYPE_INFO :: "8 word" where "AC_PTYPE_INFO = 0x07"
definition AC_PTYPE_INIT :: "8 word" where "AC_PTYPE_INIT = 0x09"
definition AC_PTYPE_UNKN :: "8 word" where "AC_PTYPE_UNKN = 0x0b"

definition AC_CMD_STATUS_BIG :: "8 word" where "AC_CMD_STATUS_BIG = 0x21"
definition AC_CMD_STATUS_SMALL :: "8 word" where "AC_CMD_STATUS_SMALL = 0x11"
definition AC_CMD_STATUS_PERIODIC :: "8 word" where "AC_CMD_STATUS_PERIODIC = 0x2C"
definition AC_CMD_SET_PARAMS :: "8 word" where "AC_CMD_SET_PARAMS = 0x01"

definition AC_PACKET_START_BYTE :: "8 word" where "AC_PACKET_START_BYTE = 0xBB"
definition AC_PACKET_ANSWER :: "8 word" where "AC_PACKET_ANSWER = 0x80"

subsection \<open>Packets\<close>

text \<open>
  \<^verbatim>\<open>struct packet_t\<close>. The pointers \<^verbatim>\<open>crc\<close> and \<^verbatim>\<open>body\<close> only ever hold
  \<^verbatim>\<open>nullptr\<close> or an address inside \<^verbatim>\<open>data\<close>; they are the offset into \<open>data\<close>, with
  \<open>None\<close> for \<^verbatim>\<open>nullptr\<close>. The pointer \<^verbatim>\<open>header\<close> always is \<^verbatim>\<open>data\<close> itself, so the
  header fields are read and written at their offsets in \<open>data\<close>.
\<close>

record packet_t =
  msec :: "32 word"
  crc :: "nat option"
  body :: "nat option"
  bytesLoaded :: "8 word"
  data :: "8 word list"

text \<open>Offsets of the fields of \<^verbatim>\<open>struct packet_header_t\<close>.\<close>

definition start_byte :: "packet_t \<Rightarrow> 8 word" where "start_byte p = data p ! 0"
definition packet_type :: "packet_t \<Rightarrow> 8 word" where "packet_type p = data p ! 2"
definition wifi :: "packet_t \<Rightarrow> 8 word" where "wifi p = data p ! 3"
definition ping_answer_01 :: "packet_t \<Rightarrow> 8 word" where "ping_answer_01 p = data p ! 4"
definition body_length :: "packet_t \<Rightarrow> 8 word" where "body_length p = data p ! 6"

text \<open>Reading and writing \<^verbatim>\<open>p[k]\<close> through a pointer \<open>p\<close> into \<open>data\<close>.\<close>

definition rd :: "8 word list \<Rightarrow> nat option \<Rightarrow> nat \<Rightarrow> 8 word option" where
  "rd d p k = (case p of None \<Rightarrow> None
     | Some off \<Rightarrow> if off + k < AC_BUFFER_SIZE then Some (d ! (off + k)) else None)"

definition wr :: "8 word list \<Rightarrow> nat option \<Rightarrow> nat \<Rightarrow> 8 word \<Rightarrow> 8 word list option" where
  "wr d p k v = (case p of None \<Rightarrow> None
     | Some off \<Rightarrow> if off + k < AC_BUFFER_SIZE then Some (d[off + k := v]) else None)"

definition clearBuffer :: "8 word list" where
  "clearBuffer = replicate AC_BUFFER_SIZE 0"

definition clearPacket :: "packet_t" where
  "clearPacket = \<lparr>msec = 0, crc = None, body = None, bytesLoaded = 0, data = clearBuffer\<rparr>"

subsection \<open>Checksum\<close>

text \<open>
  The loop of \<^verbatim>\<open>_CRC16\<close>: \<^verbatim>\<open>for (i = 0; i < len; i += 2) crc += (buf[i] << 8) + buf[i+1]\<close>
  with a 32-bit accumulator.
\<close>

function CRC16_loop :: "8 word list \<Rightarrow> nat \<Rightarrow> nat \<Rightarrow> 32 word \<Rightarrow> 32 word" where
  "CRC16_loop buf len i acc =
     (if i < len
      then CRC16_loop buf len (i + 2) (acc + (push_bit 8 (ucast (buf ! i)) + ucast (buf ! (i + 1))))
      else acc)"
  by pat_completeness auto
termination
  by (relation "measure (\<lambda>(buf, len, i, acc). len - i)") auto

declare CRC16_loop.simps [simp del]

text \<open>
  \<^verbatim>\<open>_CRC16(data, len)\<close>. The data are copied into a zeroed buffer of \<open>AC_BUFFER_SIZE\<close>
  bytes; a length beyond the buffer would make \<^verbatim>\<open>memcpy\<close> write outside it.
\<close>

definition CRC16 :: "8 word list \<Rightarrow> 8 word \<Rightarrow> 16 word option" where
  "CRC16 dat len =
     (if AC_BUFFER_SIZE < unat len then None
      else
        let crcBuffer = take (unat len) dat @ replicate (AC_BUFFER_SIZE - unat len) 0;
            len2 = (if unat len mod 2 = 1 then len + 1 else len);
            acc = CRC16_loop crcBuffer (unat len2) 0 0;
            folded = drop_bit 16 acc + (acc AND 0xFFFF);
            inverted = NOT folded
        in Some (ucast (inverted AND 0xFFFF)))"

text \<open>
  \<^verbatim>\<open>union packet_crc_t { uint16_t crc16; uint8_t crc[2]; }\<close>: the byte \<^verbatim>\<open>crc[k]\<close> of a
  value stored through \<^verbatim>\<open>crc16\<close>. The component is built for the ESP8266 and ESP32,
  which are little-endian: \<^verbatim>\<open>crc[0]\<close> is the low byte, \<^verbatim>\<open>crc[1]\<close> the high byte.
\<close>

definition crc_byte :: "16 word \<Rightarrow> nat \<Rightarrow> 8 word" where
  "crc_byte c k = (if k = 0 then ucast c else ucast (drop_bit 8 c))"

text \<open>The pointer to the checksum that \<^verbatim>\<open>_setCRC16\<close> and \<^verbatim>\<open>_checkCRC\<close> set when it is null.\<close>

definition crc_ptr :: "packet_t \<Rightarrow> nat option" where
  "crc_ptr pack = (case crc pack of None \<Rightarrow> Some (AC_HEADER_SIZE + unat (body_length pack))
                   | Some off \<Rightarrow> Some off)"

definition setCRC16 :: "packet_t \<Rightarrow> packet_t option" where
  "setCRC16 pack = do {
     c \<leftarrow> CRC16 (data pack) (8 + body_length pack);
     d1 \<leftarrow> wr (data pack) (crc_ptr pack) 0 (crc_byte c 1);
     d2 \<leftarrow> wr d1 (crc_ptr pack) 1 (crc_byte c 0);
     Some (pack\<lparr>crc := crc_ptr pack, data := d2\<rparr>)
   }"

definition checkCRC :: "packet_t \<Rightarrow> (bool \<times> packet_t) option" where
  "checkCRC pack =
     (if unat (bytesLoaded pack) < AC_HEADER_SIZE then Some (False, pack)
      else do {
        c \<leftarrow> CRC16 (data pack) (8 + body_length pack);
        b0 \<leftarrow> rd (data pack) (crc_ptr pack) 0;
        b1 \<leftarrow> (if b0 = crc_byte c 1 then rd (data pack) (crc_ptr pack) 1 else Some 0);
        Some (b0 = crc_byte c 1 \<and> b1 = crc_byte c 0, pack\<lparr>crc := crc_ptr pack\<rparr>)
      })"


subsection \<open>Air conditioner parameters\<close>

text \<open>
  The parameter enumerations are \<^verbatim>\<open>uint8_t\<close> enums that the decoder fills with masked
  bytes of a packet, so a field can hold any byte: they are \<open>8 word\<close> with the named
  values as constants. The \<^verbatim>\<open>float\<close> temperatures are the rational numbers they denote:
  every value the codec computes for the target temperature (\<open>8 + n + 0.5 * b\<close>, the
  bounds 16 and 32, the integer part) is exactly representable, and NaN and the infinities
  are outside the model.
\<close>

definition AC_MIN_TEMPERATURE :: rat where "AC_MIN_TEMPERATURE = 16"
definition AC_MAX_TEMPERATURE :: rat where "AC_MAX_TEMPERATURE = 32"

definition AC_POWER_MASK :: "8 word" where "AC_POWER_MASK = 0x20"
definition AC_POWER_OFF :: "8 word" where "AC_POWER_OFF = 0x00"
definition AC_POWER_ON :: "8 word" where "AC_POWER_ON = 0x20"
definition AC_POWER_UNTOUCHED :: "8 word" where "AC_POWER_UNTOUCHED = 0xFF"

definition AC_CLEAN_MASK :: "8 word" where "AC_CLEAN_MASK = 0x04"
definition AC_CLEAN_UNTOUCHED :: "8 word" where "AC_CLEAN_UNTOUCHED = 0xFF"

definition AC_HEALTH_MASK :: "8 word" where "AC_HEALTH_MASK = 0x02"
definition AC_HEALTH_UNTOUCHED :: "8 word" where "AC_HEALTH_UNTOUCHED = 0xFF"

definition AC_HEALTH_STATUS_MASK :: "8 word" where "AC_HEALTH_STATUS_MASK = 0x01"
definition AC_HEALTH_STATUS_ON :: "8 word" where "AC_HEALTH_STATUS_ON = 0x01"
definition AC_HEALTH_STATUS_UNTOUCHED :: "8 word" where "AC_HEALTH_STATUS_UNTOUCHED = 0xFF"

definition AC_TEMP_TARGET_INT_PART_MASK :: "8 word" where "AC_TEMP_TARGET_INT_PART_MASK = 0xF8"
definition AC_TEMP_TARGET_FRAC_PART_MASK :: "8 word" where "AC_TEMP_TARGET_FRAC_PART_MASK = 0x80"

definition AC_MODE_MASK :: "8 word" where "AC_MODE_MASK = 0xE0"
definition AC_MODE_UNTOUCHED :: "8 word" where "AC_MODE_UNTOUCHED = 0xFF"

definition AC_SLEEP_MASK :: "8 word" where "AC_SLEEP_MASK = 0x04"
definition AC_SLEEP_UNTOUCHED :: "8 word" where "AC_SLEEP_UNTOUCHED = 0xFF"

definition AC_IFEEL_MASK :: "8 word" where "AC_IFEEL_MASK = 0x08"
definition AC_IFEEL_UNTOUCHED :: "8 word" where "AC_IFEEL_UNTOUCHED = 0xFF"

definition AC_LOUVERV_MASK :: "8 word" where "AC_LOUVERV_MASK = 0x07"
definition AC_LOUVERV_SWING_UPDOWN :: "8 word" where "AC_LOUVERV_SWING_UPDOWN = 0x00"
definition AC_LOUVERV_OFF :: "8 word" where "AC_LOUVERV_OFF = 0x07"
definition AC_LOUVERV_UNTOUCHED :: "8 word" where "AC_LOUVERV_UNTOUCHED = 0xFF"

definition AC_LOUVERH_MASK :: "8 word" where "AC_LOUVERH_MASK = 0xE0"
definition AC_LOUVERH_UNTOUCHED :: "8 word" where "AC_LOUVERH_UNTOUCHED = 0xFF"

definition AC_FANSPEED_MASK :: "8 word" where "AC_FANSPEED_MASK = 0xE0"
definition AC_FANSPEED_UNTOUCHED :: "8 word" where "AC_FANSPEED_UNTOUCHED = 0xFF"

definition AC_FANTURBO_MASK :: "8 word" where "AC_FANTURBO_MASK = 0x40"
definition AC_FANTURBO_UNTOUCHED :: "8 word" where "AC_FANTURBO_UNTOUCHED = 0xFF"

definition AC_FANMUTE_MASK :: "8 word" where "AC_FANMUTE_MASK = 0x80"
definition AC_FANMUTE_UNTOUCHED :: "8 word" where "AC_FANMUTE_UNTOUCHED = 0xFF"

definition AC_DISPLAY_MASK :: "8 word" where "AC_DISPLAY_MASK = 0x10"
definition AC_DISPLAY_UNTOUCHED :: "8 word" where "AC_DISPLAY_UNTOUCHED = 0xFF"

definition AC_MILDEW_MASK :: "8 word" where "AC_MILDEW_MASK = 0x08"
definition AC_MILDEW_UNTOUCHED :: "8 word" where "AC_MILDEW_UNTOUCHED = 0xFF"

text \<open>
  \<^verbatim>\<open>struct ac_command_t\<close>, also the type of the AC state. The field \<^verbatim>\<open>power\<close> is
  \<open>power_st\<close> here; the two fields of \<^verbatim>\<open>louver\<close> are \<open>louver_h\<close> and \<open>louver_v\<close>.
\<close>

record ac_command_t =
  power_st :: "8 word"
  temp_target :: rat
  temp_target_matter :: bool
  temp_ambient :: rat
  temp_outdoor :: rat
  clean :: "8 word"
  health :: "8 word"
  health_status :: "8 word"
  mode :: "8 word"
  sleep :: "8 word"
  iFeel :: "8 word"
  louver_h :: "8 word"
  louver_v :: "8 word"
  fanSpeed :: "8 word"
  fanTurbo :: "8 word"
  fanMute :: "8 word"
  display :: "8 word"
  mildew :: "8 word"

definition clearCommand :: ac_command_t where
  "clearCommand =
     \<lparr>power_st = AC_POWER_UNTOUCHED, temp_target = 0, temp_target_matter = False,
      temp_ambient = 0, temp_outdoor = 0, clean = AC_CLEAN_UNTOUCHED,
      health = AC_HEALTH_UNTOUCHED, health_status = AC_HEALTH_STATUS_UNTOUCHED,
      mode = AC_MODE_UNTOUCHED, sleep = AC_SLEEP_UNTOUCHED, iFeel = AC_IFEEL_UNTOUCHED,
      louver_h = AC_LOUVERH_UNTOUCHED, louver_v = AC_LOUVERV_UNTOUCHED,
      fanSpeed = AC_FANSPEED_UNTOUCHED, fanTurbo = AC_FANTURBO_UNTOUCHED,
      fanMute = AC_FANMUTE_UNTOUCHED, display = AC_DISPLAY_UNTOUCHED,
      mildew = AC_MILDEW_UNTOUCHED\<rparr>"

subsection \<open>Filling outgoing packets\<close>

text \<open>The assignments of \<^verbatim>\<open>_fillStatusSmall\<close> and \<^verbatim>\<open>_fillStatusBig\<close>, which differ in the command code.\<close>

definition fillStatus :: "8 word \<Rightarrow> 32 word \<Rightarrow> packet_t \<Rightarrow> packet_t option" where
  "fillStatus code now pack =
     setCRC16 (pack\<lparr>msec := now,
                    body := Some AC_HEADER_SIZE,
                    bytesLoaded := 12,
                    crc := Some (AC_HEADER_SIZE + 2),
                    data := (data pack)[0 := AC_PACKET_START_BYTE, 3 := AC_PACKET_ANSWER,
                                        2 := AC_PTYPE_CMD, 6 := 2, 8 := code, 9 := 0x01]\<rparr>)"

definition fillStatusSmall :: "32 word \<Rightarrow> packet_t \<Rightarrow> packet_t option" where
  "fillStatusSmall = fillStatus AC_CMD_STATUS_SMALL"

definition fillStatusBig :: "32 word \<Rightarrow> packet_t \<Rightarrow> packet_t option" where
  "fillStatusBig = fillStatus AC_CMD_STATUS_BIG"

text \<open>\<^verbatim>\<open>pack->body[k] = (pack->body[k] & ~mask) | v\<close> with \<^verbatim>\<open>body = &data[8]\<close>.\<close>

definition set_bits :: "nat \<Rightarrow> 8 word \<Rightarrow> 8 word \<Rightarrow> 8 word list \<Rightarrow> 8 word list" where
  "set_bits k msk v d = d[AC_HEADER_SIZE + k := (d ! (AC_HEADER_SIZE + k) AND NOT msk) OR v]"

text \<open>The clamping of \<^verbatim>\<open>cmd->temp_target\<close>, which \<^verbatim>\<open>_fillSetCommand\<close> stores back into the command.\<close>

definition clamp_temp :: "ac_command_t \<Rightarrow> ac_command_t" where
  "clamp_temp cmd =
     (if temp_target_matter cmd
      then (let c1 = (if temp_target cmd < AC_MIN_TEMPERATURE
                      then cmd\<lparr>temp_target := AC_MIN_TEMPERATURE\<rparr> else cmd)
            in (if temp_target c1 > AC_MAX_TEMPERATURE
                then c1\<lparr>temp_target := AC_MAX_TEMPERATURE\<rparr> else c1))
      else cmd)"

text \<open>
  The per-field writes of \<^verbatim>\<open>_fillSetCommand\<close> into the body, in the order of the source;
  \<open>cmd\<close> is the command after clamping. \<^verbatim>\<open>(uint8_t)(cmd->temp_target)\<close> truncates a value
  between 16 and 32. Each later write is
  \<^verbatim>\<open>if (cmd->x != X_UNTOUCHED) pack->body[k] = (pack->body[k] & ~X_MASK) | cmd->x\<close>.
\<close>

definition set_temp :: "ac_command_t \<Rightarrow> 8 word list \<Rightarrow> 8 word list" where
  "set_temp cmd d =
     (if temp_target_matter cmd
      then set_bits 4 AC_TEMP_TARGET_FRAC_PART_MASK
             (if temp_target cmd - of_int \<lfloor>temp_target cmd\<rfloor> > 0 then 1 else 0)
             (set_bits 2 AC_TEMP_TARGET_INT_PART_MASK
                (push_bit 3 (of_int \<lfloor>temp_target cmd\<rfloor> - 8)) d)
      else d)"

definition set_field :: "8 word \<Rightarrow> 8 word \<Rightarrow> nat \<Rightarrow> 8 word \<Rightarrow> 8 word list \<Rightarrow> 8 word list" where
  "set_field v untouched k msk d = (if v \<noteq> untouched then set_bits k msk v d else d)"

definition fill_fields :: "ac_command_t \<Rightarrow> 8 word list \<Rightarrow> 8 word list" where
  "fill_fields cmd d0 =
     (let d1 = set_temp cmd d0;
          d2 = set_field (louver_v cmd) AC_LOUVERV_UNTOUCHED 2 AC_LOUVERV_MASK d1;
          d3 = set_field (louver_h cmd) AC_LOUVERH_UNTOUCHED 3 AC_LOUVERH_MASK d2;
          d4 = set_field (fanSpeed cmd) AC_FANSPEED_UNTOUCHED 5 AC_FANSPEED_MASK d3;
          d5 = set_field (fanTurbo cmd) AC_FANTURBO_UNTOUCHED 6 AC_FANTURBO_MASK d4;
          d6 = set_field (fanMute cmd) AC_FANMUTE_UNTOUCHED 6 AC_FANMUTE_MASK d5;
          d7 = set_field (mode cmd) AC_MODE_UNTOUCHED 7 AC_MODE_MASK d6;
          d8 = set_field (sleep cmd) AC_SLEEP_UNTOUCHED 7 AC_SLEEP_MASK d7;
          d9 = set_field (iFeel cmd) AC_IFEEL_UNTOUCHED 7 AC_IFEEL_MASK d8;
          d10 = set_field (power_st cmd) AC_POWER_UNTOUCHED 10 AC_POWER_MASK d9;
          d11 = set_field (clean cmd) AC_CLEAN_UNTOUCHED 10 AC_CLEAN_MASK d10;
          d12 = set_field (health cmd) AC_HEALTH_UNTOUCHED 10 AC_HEALTH_MASK d11;
          d13 = set_field (display cmd) AC_DISPLAY_UNTOUCHED 12 AC_DISPLAY_MASK d12;
          d14 = set_field (mildew cmd) AC_MILDEW_UNTOUCHED 12 AC_MILDEW_MASK d13
      in d14)"

text \<open>
  \<^verbatim>\<open>_fillSetCommand\<close> from the line \<^verbatim>\<open>pack->msec = millis()\<close> on, for a command that is
  not null: the packet is filled from \<open>cmd\<close>, and \<open>cmd\<close> is returned clamped.
\<close>

definition fill_from :: "32 word \<Rightarrow> packet_t \<Rightarrow> ac_command_t \<Rightarrow> (packet_t \<times> ac_command_t) option" where
  "fill_from now pack cmd =
     (let d = (data pack)[0 := AC_PACKET_START_BYTE, 3 := AC_PACKET_ANSWER, 2 := AC_PTYPE_CMD,
                          6 := 15, 8 := AC_CMD_SET_PARAMS, 9 := 0x01];
          cmd' = clamp_temp cmd
      in do {
        p \<leftarrow> setCRC16 (pack\<lparr>msec := now, body := Some AC_HEADER_SIZE, bytesLoaded := 25,
                             crc := Some (AC_HEADER_SIZE + 15), data := fill_fields cmd' d\<rparr>);
        Some (p, cmd')
      })"


subsection \<open>Sequences and the component state\<close>

definition AC_SEQUENCE_MAX_LEN :: nat where "AC_SEQUENCE_MAX_LEN = 15"
definition AC_SEQUENCE_DEFAULT_TIMEOUT :: "16 word" where "AC_SEQUENCE_DEFAULT_TIMEOUT = 500"
definition AC_STATES_REQUEST_INTERVAL :: nat where "AC_STATES_REQUEST_INTERVAL = 7000"

datatype acsm_state = ACSM_IDLE | ACSM_RECEIVING_PACKET | ACSM_PARSING_PACKET | ACSM_SENDING_PACKET

datatype sequence_item_type_t = AC_SIT_NONE | AC_SIT_DELAY | AC_SIT_FUNC

datatype sequence_packet_type_t = AC_SPT_CLEAR | AC_SPT_RECEIVED_PACKET | AC_SPT_SENT_PACKET

text \<open>The member functions a step can point to (\<^verbatim>\<open>&AirCon::sq_requestSmallStatus\<close> and so on).\<close>

datatype sq_func =
    AirCon_sq_requestSmallStatus
  | AirCon_sq_controlSmallStatus
  | AirCon_sq_requestBigStatus
  | AirCon_sq_controlBigStatus
  | AirCon_sq_requestDoCommand
  | AirCon_sq_controlDoCommand

text \<open>
  \<^verbatim>\<open>struct sequence_item_t\<close>; its fields \<^verbatim>\<open>msec\<close> and \<^verbatim>\<open>packet_type\<close> are
  \<open>item_msec\<close> and \<open>item_packet_type\<close> here. \<open>func = None\<close> is the null pointer.
\<close>

record sequence_item_t =
  item_type :: sequence_item_type_t
  func :: "sq_func option"
  timeout :: "16 word"
  item_msec :: "32 word"
  item_packet_type :: sequence_packet_type_t
  packet :: packet_t
  cmd :: ac_command_t

text \<open>
  The private members of \<^verbatim>\<open>class AirCon\<close>, and its environment: \<open>serial_rx\<close> holds the
  bytes waiting in the UART, \<open>serial_tx\<close> the bytes written to it, \<open>published\<close> the AC
  states handed to \<^verbatim>\<open>stateChanged()\<close>. \<^verbatim>\<open>millis()\<close> is the argument \<open>now\<close> of each
  operation. Log output is not modelled.
\<close>

record AirCon =
  dataMillis :: "32 word"
  cnt :: "8 word"
  ac_state :: acsm_state
  current_ac_state :: ac_command_t
  hw_initialized :: bool
  inPacket :: packet_t
  outPacket :: packet_t
  sequence :: "sequence_item_t list"
  sequence_current_step :: "8 word"
  startupSequenceComlete :: bool
  serial_rx :: "8 word list"
  serial_tx :: "8 word list"
  published :: "ac_command_t list"

definition empty_item :: sequence_item_t where
  "empty_item = \<lparr>item_type = AC_SIT_NONE, func = None, timeout = 0, item_msec = 0,
                  item_packet_type = AC_SPT_CLEAR, packet = clearPacket, cmd = clearCommand\<rparr>"

definition clearSequence :: "AirCon \<Rightarrow> AirCon" where
  "clearSequence s = s\<lparr>sequence := replicate AC_SEQUENCE_MAX_LEN empty_item,
                        sequence_current_step := 0\<rparr>"

definition hasSequence :: "AirCon \<Rightarrow> bool" where
  "hasSequence s = (item_type (sequence s ! 0) \<noteq> AC_SIT_NONE)"

definition clearInPacket :: "AirCon \<Rightarrow> AirCon" where
  "clearInPacket s = s\<lparr>inPacket := clearPacket\<rparr>"

definition clearOutPacket :: "AirCon \<Rightarrow> AirCon" where
  "clearOutPacket s =
     s\<lparr>outPacket := clearPacket\<lparr>data := clearBuffer[0 := AC_PACKET_START_BYTE, 3 := AC_PACKET_ANSWER]\<rparr>\<rparr>"

definition copyPacket :: "packet_t \<Rightarrow> packet_t \<Rightarrow> packet_t" where
  "copyPacket dest src =
     (let d = dest\<lparr>msec := msec src, bytesLoaded := bytesLoaded src, data := data src\<rparr>;
          d = (if body_length d > 0 then d\<lparr>body := Some AC_HEADER_SIZE\<rparr> else d)
      in d\<lparr>crc := Some (AC_HEADER_SIZE + unat (body_length d))\<rparr>)"

definition setStateMachineState :: "acsm_state \<Rightarrow> AirCon \<Rightarrow> AirCon" where
  "setStateMachineState st s = (if ac_state s = st then s else s\<lparr>ac_state := st\<rparr>)"

definition stateChanged :: "AirCon \<Rightarrow> AirCon" where
  "stateChanged s = s\<lparr>published := published s @ [current_ac_state s]\<rparr>"

text \<open>The element \<^verbatim>\<open>_sequence[i]\<close>: an index outside the array is a fault.\<close>

definition seq_get :: "AirCon \<Rightarrow> nat \<Rightarrow> sequence_item_t option" where
  "seq_get s i = (if i < AC_SEQUENCE_MAX_LEN then Some (sequence s ! i) else None)"

definition seq_put :: "nat \<Rightarrow> sequence_item_t \<Rightarrow> AirCon \<Rightarrow> AirCon option" where
  "seq_put i it s = (if i < AC_SEQUENCE_MAX_LEN then Some (s\<lparr>sequence := (sequence s)[i := it]\<rparr>) else None)"

text \<open>
  The objects the arguments \<^verbatim>\<open>pack\<close> and \<^verbatim>\<open>cmd\<close> of \<^verbatim>\<open>_fillSetCommand\<close> point to.
  The function writes through both pointers, so they are references into the state.
\<close>

datatype pack_ref = Ref_outPacket | Ref_sequence_packet nat
datatype cmd_ref = Ref_nullptr | Ref_current_ac_state | Ref_sequence_cmd nat

fun get_pack :: "pack_ref \<Rightarrow> AirCon \<Rightarrow> packet_t option" where
  "get_pack Ref_outPacket s = Some (outPacket s)"
| "get_pack (Ref_sequence_packet i) s = map_option packet (seq_get s i)"

fun put_pack :: "pack_ref \<Rightarrow> packet_t \<Rightarrow> AirCon \<Rightarrow> AirCon option" where
  "put_pack Ref_outPacket p s = Some (s\<lparr>outPacket := p\<rparr>)"
| "put_pack (Ref_sequence_packet i) p s = do { it \<leftarrow> seq_get s i; seq_put i (it\<lparr>packet := p\<rparr>) s }"

fun get_cmd :: "cmd_ref \<Rightarrow> AirCon \<Rightarrow> ac_command_t option" where
  "get_cmd Ref_nullptr s = None"
| "get_cmd Ref_current_ac_state s = Some (current_ac_state s)"
| "get_cmd (Ref_sequence_cmd i) s = map_option cmd (seq_get s i)"

fun put_cmd :: "cmd_ref \<Rightarrow> ac_command_t \<Rightarrow> AirCon \<Rightarrow> AirCon option" where
  "put_cmd Ref_nullptr c s = None"
| "put_cmd Ref_current_ac_state c s = Some (s\<lparr>current_ac_state := c\<rparr>)"
| "put_cmd (Ref_sequence_cmd i) c s = do { it \<leftarrow> seq_get s i; seq_put i (it\<lparr>cmd := c\<rparr>) s }"

definition fill_from_ref :: "32 word \<Rightarrow> pack_ref \<Rightarrow> cmd_ref \<Rightarrow> AirCon \<Rightarrow> AirCon option" where
  "fill_from_ref now pr cr s = do {
     pack \<leftarrow> get_pack pr s;
     c \<leftarrow> get_cmd cr s;
     (pack', c') \<leftarrow> fill_from now pack c;
     s1 \<leftarrow> put_pack pr pack' s;
     put_cmd cr c' s1
   }"

text \<open>
  \<^verbatim>\<open>_fillSetCommand(clrPacket, pack, cmd)\<close>. The recursive call
  \<^verbatim>\<open>_fillSetCommand(false, pack, &_current_ac_state)\<close> neither clears nor recurses again,
  so it is \<open>fill_from_ref\<close> on the current AC state.
\<close>

definition fillSetCommand :: "32 word \<Rightarrow> bool \<Rightarrow> pack_ref \<Rightarrow> cmd_ref \<Rightarrow> AirCon \<Rightarrow> AirCon option" where
  "fillSetCommand now clrPacket pr cr s = do {
     s1 \<leftarrow> (if clrPacket then put_pack pr clearPacket s else Some s);
     s2 \<leftarrow> (if cr \<noteq> Ref_current_ac_state then fill_from_ref now pr Ref_current_ac_state s1
            else Some s1);
     (if cr = Ref_nullptr then Some s2 else fill_from_ref now pr cr s2)
   }"

subsection \<open>Step functions of a sequence\<close>

definition next_step :: "AirCon \<Rightarrow> AirCon" where
  "next_step s = s\<lparr>sequence_current_step := sequence_current_step s + 1\<rparr>"

definition set_item_packet_type :: "sequence_packet_type_t \<Rightarrow> AirCon \<Rightarrow> AirCon option" where
  "set_item_packet_type t s = do {
     it \<leftarrow> seq_get s (unat (sequence_current_step s));
     seq_put (unat (sequence_current_step s)) (it\<lparr>item_packet_type := t\<rparr>) s
   }"

text \<open>\<^verbatim>\<open>sq_requestSmallStatus\<close> and \<^verbatim>\<open>sq_requestBigStatus\<close>, which differ in the fill function.\<close>

definition sq_requestStatus :: "(32 word \<Rightarrow> packet_t \<Rightarrow> packet_t option) \<Rightarrow> 32 word \<Rightarrow> AirCon \<Rightarrow> (bool \<times> AirCon) option" where
  "sq_requestStatus fill now s =
     (if bytesLoaded (outPacket s) > 0 then Some (True, s)
      else do {
        out \<leftarrow> fill now (outPacket s);
        it \<leftarrow> seq_get s (unat (sequence_current_step s));
        p \<leftarrow> fill now (packet it);
        s1 \<leftarrow> seq_put (unat (sequence_current_step s))
                (it\<lparr>packet := p, item_packet_type := AC_SPT_SENT_PACKET\<rparr>) (s\<lparr>outPacket := out\<rparr>);
        Some (True, next_step s1)
      })"

definition sq_requestSmallStatus :: "32 word \<Rightarrow> AirCon \<Rightarrow> (bool \<times> AirCon) option" where
  "sq_requestSmallStatus = sq_requestStatus fillStatusSmall"

definition sq_requestBigStatus :: "32 word \<Rightarrow> AirCon \<Rightarrow> (bool \<times> AirCon) option" where
  "sq_requestBigStatus = sq_requestStatus fillStatusBig"

text \<open>
  The common part of the three control functions, up to the checks of the packet type,
  the body length and the first two body bytes. \<^verbatim>\<open>relevant && ...\<close> does not evaluate
  its right operand once \<open>relevant\<close> is false.
\<close>

definition store_inPacket :: "AirCon \<Rightarrow> AirCon option" where
  "store_inPacket s = do {
     it \<leftarrow> seq_get s (unat (sequence_current_step s));
     seq_put (unat (sequence_current_step s))
       (it\<lparr>packet := copyPacket (packet it) (inPacket s),
           item_packet_type := AC_SPT_RECEIVED_PACKET\<rparr>) s
   }"

definition relevant_head :: "8 word \<Rightarrow> 8 word \<Rightarrow> AirCon \<Rightarrow> bool option" where
  "relevant_head len code s =
     (if packet_type (inPacket s) = AC_PTYPE_INFO \<and> body_length (inPacket s) = len
      then do {
        b0 \<leftarrow> rd (data (inPacket s)) (body (inPacket s)) 0;
        if b0 = 0x01
        then do { b1 \<leftarrow> rd (data (inPacket s)) (body (inPacket s)) 1; Some (b1 = code) }
        else Some False
      }
      else Some False)"

definition sq_controlStatus :: "8 word \<Rightarrow> 8 word \<Rightarrow> AirCon \<Rightarrow> (bool \<times> AirCon) option" where
  "sq_controlStatus len code s =
     (if bytesLoaded (inPacket s) = 0 then Some (True, s)
      else if packet_type (inPacket s) = AC_PTYPE_PING then Some (True, s)
      else do {
        s1 \<leftarrow> store_inPacket s;
        relevant \<leftarrow> relevant_head len code s1;
        Some (relevant, if relevant then next_step s1 else s1)
      })"

definition sq_controlSmallStatus :: "AirCon \<Rightarrow> (bool \<times> AirCon) option" where
  "sq_controlSmallStatus = sq_controlStatus 0x0F AC_CMD_STATUS_SMALL"

definition sq_controlBigStatus :: "AirCon \<Rightarrow> (bool \<times> AirCon) option" where
  "sq_controlBigStatus = sq_controlStatus 0x18 AC_CMD_STATUS_BIG"

definition sq_requestDoCommand :: "32 word \<Rightarrow> AirCon \<Rightarrow> (bool \<times> AirCon) option" where
  "sq_requestDoCommand now s =
     (if bytesLoaded (outPacket s) > 0 then Some (True, s)
      else do {
        s1 \<leftarrow> fillSetCommand now True Ref_outPacket
                (Ref_sequence_cmd (unat (sequence_current_step s))) s;
        s2 \<leftarrow> fillSetCommand now True (Ref_sequence_packet (unat (sequence_current_step s)))
                (Ref_sequence_cmd (unat (sequence_current_step s))) s1;
        s3 \<leftarrow> set_item_packet_type AC_SPT_SENT_PACKET s2;
        Some (True, next_step s3)
      })"

text \<open>
  \<^verbatim>\<open>sq_controlDoCommand\<close> compares body bytes 2 and 3 with the checksum bytes of the packet
  of the step before; \<^verbatim>\<open>_sequence_current_step - 1\<close> is computed in \<^verbatim>\<open>int\<close>.
\<close>

definition prev_crc :: "AirCon \<Rightarrow> nat \<Rightarrow> 8 word option" where
  "prev_crc s k =
     (if sequence_current_step s = 0 then None
      else do {
        it \<leftarrow> seq_get s (unat (sequence_current_step s) - 1);
        rd (data (packet it)) (crc (packet it)) k
      })"

definition sq_controlDoCommand :: "AirCon \<Rightarrow> (bool \<times> AirCon) option" where
  "sq_controlDoCommand s =
     (if bytesLoaded (inPacket s) = 0 then Some (True, s)
      else if packet_type (inPacket s) = AC_PTYPE_PING then Some (True, s)
      else do {
        s1 \<leftarrow> store_inPacket s;
        r1 \<leftarrow> relevant_head 0x04 AC_CMD_SET_PARAMS s1;
        r2 \<leftarrow> (if r1 then do {
                  b2 \<leftarrow> rd (data (inPacket s1)) (body (inPacket s1)) 2;
                  c0 \<leftarrow> prev_crc s1 0;
                  Some (b2 = c0) }
               else Some False);
        relevant \<leftarrow> (if r2 then do {
                  b3 \<leftarrow> rd (data (inPacket s1)) (body (inPacket s1)) 3;
                  c1 \<leftarrow> prev_crc s1 1;
                  Some (b3 = c1) }
               else Some False);
        Some (relevant, if relevant then next_step s1 else s1)
      })"

text \<open>The call \<^verbatim>\<open>(this->*func)()\<close>.\<close>

fun call_func :: "sq_func \<Rightarrow> 32 word \<Rightarrow> AirCon \<Rightarrow> (bool \<times> AirCon) option" where
  "call_func AirCon_sq_requestSmallStatus now s = sq_requestSmallStatus now s"
| "call_func AirCon_sq_controlSmallStatus now s = sq_controlSmallStatus s"
| "call_func AirCon_sq_requestBigStatus now s = sq_requestBigStatus now s"
| "call_func AirCon_sq_controlBigStatus now s = sq_controlBigStatus s"
| "call_func AirCon_sq_requestDoCommand now s = sq_requestDoCommand now s"
| "call_func AirCon_sq_controlDoCommand now s = sq_controlDoCommand s"

subsection \<open>The sequence engine\<close>

text \<open>
  \<^verbatim>\<open>_doSequence\<close>. The stamping of the start time and the default timeout are written
  into the step before the timeout is checked, as in the source.
\<close>

definition stamp_item :: "32 word \<Rightarrow> sequence_item_t \<Rightarrow> sequence_item_t" where
  "stamp_item now it = (if item_msec it = 0 then it\<lparr>item_msec := now\<rparr> else it)"

definition default_timeout :: "sequence_item_t \<Rightarrow> sequence_item_t" where
  "default_timeout it = (if timeout it = 0 then it\<lparr>timeout := AC_SEQUENCE_DEFAULT_TIMEOUT\<rparr> else it)"

definition timed_out :: "32 word \<Rightarrow> sequence_item_t \<Rightarrow> bool" where
  "timed_out now it = (unat (now - item_msec it) \<ge> unat (timeout it))"

definition doSequence :: "32 word \<Rightarrow> AirCon \<Rightarrow> AirCon option" where
  "doSequence now s =
     (if \<not> hasSequence s then Some s
      else if unat (sequence_current_step s) \<ge> AC_SEQUENCE_MAX_LEN then Some (clearSequence s)
      else
        let i = unat (sequence_current_step s); it = sequence s ! i in
        (case item_type it of
           AC_SIT_FUNC \<Rightarrow>
             (case func it of
                None \<Rightarrow> Some (clearSequence s)
              | Some f \<Rightarrow>
                  let it' = default_timeout (stamp_item now it);
                      s1 = s\<lparr>sequence := (sequence s)[i := it']\<rparr>
                  in if timed_out now it' then Some (clearSequence s1)
                     else do {
                       (ok, s2) \<leftarrow> call_func f now s1;
                       if \<not> ok then Some (clearSequence s2) else Some s2
                     })
         | AC_SIT_DELAY \<Rightarrow>
             (let it' = stamp_item now it;
                  s1 = s\<lparr>sequence := (sequence s)[i := it']\<rparr>
              in if timed_out now it' then Some (next_step s1) else Some s1)
         | AC_SIT_NONE \<Rightarrow> Some (clearSequence s)))"

subsection \<open>Building sequences\<close>

definition set_func :: "nat \<Rightarrow> sq_func \<Rightarrow> AirCon \<Rightarrow> AirCon option" where
  "set_func i f s = do {
     it \<leftarrow> seq_get s i;
     seq_put i (it\<lparr>item_type := AC_SIT_FUNC, func := Some f\<rparr>) s
   }"

definition startupSequence :: "AirCon \<Rightarrow> (bool \<times> AirCon) option" where
  "startupSequence s =
     (if hasSequence s then Some (False, s)
      else do {
        s0 \<leftarrow> set_func 0 AirCon_sq_requestSmallStatus (clearSequence s);
        s1 \<leftarrow> set_func 1 AirCon_sq_controlSmallStatus s0;
        s2 \<leftarrow> set_func 2 AirCon_sq_requestBigStatus s1;
        s3 \<leftarrow> set_func 3 AirCon_sq_controlBigStatus s2;
        Some (True, s3)
      })"

text \<open>
  The loop of \<^verbatim>\<open>commandSequence\<close>:
  \<^verbatim>\<open>for (i = 0; i < AC_SEQUENCE_MAX_LEN; i++) if (_sequence[i].item_type != AC_SIT_NONE) { step = i; break; }\<close>
\<close>

function scan_step :: "sequence_item_t list \<Rightarrow> nat \<Rightarrow> nat \<Rightarrow> nat" where
  "scan_step sq i step =
     (if i < AC_SEQUENCE_MAX_LEN
      then (if item_type (sq ! i) \<noteq> AC_SIT_NONE then i else scan_step sq (i + 1) step)
      else step)"
  by pat_completeness auto
termination
  by (relation "measure (\<lambda>(sq, i, step). AC_SEQUENCE_MAX_LEN - i)") auto

declare scan_step.simps [simp del]

definition set_cmd :: "nat \<Rightarrow> ac_command_t \<Rightarrow> AirCon \<Rightarrow> AirCon option" where
  "set_cmd i c s = do { it \<leftarrow> seq_get s i; seq_put i (it\<lparr>cmd := c\<rparr>) s }"

definition commandSequence :: "ac_command_t \<Rightarrow> AirCon \<Rightarrow> AirCon option" where
  "commandSequence c s =
     (let step = (if hasSequence s then scan_step (sequence s) 0 0 else 0)
      in if hasSequence s \<and> step \<ge> AC_SEQUENCE_MAX_LEN - 1 then Some s
         else do {
           s0 \<leftarrow> set_func step AirCon_sq_requestSmallStatus s;
           s1 \<leftarrow> set_func (step + 1) AirCon_sq_controlSmallStatus s0;
           s2 \<leftarrow> set_func (step + 2) AirCon_sq_requestDoCommand s1;
           s2' \<leftarrow> set_cmd (step + 2) c s2;
           s3 \<leftarrow> set_func (step + 3) AirCon_sq_controlDoCommand s2';
           s4 \<leftarrow> set_func (step + 4) AirCon_sq_requestSmallStatus s3;
           set_func (step + 5) AirCon_sq_controlSmallStatus s4
         })"


subsection \<open>The link state machine\<close>

text \<open>
  The transmission arm of \<^verbatim>\<open>_doIdleState\<close>'s \<^verbatim>\<open>while\<close> loop over the bytes that are
  neither a packet nor its start: they are collected in the incoming buffer, which is
  cleared when it is full.
\<close>

fun idle_loop :: "8 word list \<Rightarrow> packet_t \<Rightarrow> (8 word list \<times> packet_t) option" where
  "idle_loop [] p = Some ([], p)"
| "idle_loop (b # bs) p =
     (if b = AC_PACKET_START_BYTE then Some (b # bs, p)
      else if unat (bytesLoaded p) < AC_BUFFER_SIZE
      then (let p1 = p\<lparr>data := (data p)[unat (bytesLoaded p) := b], bytesLoaded := bytesLoaded p + 1\<rparr>
            in idle_loop bs (if unat (bytesLoaded p1) \<ge> AC_BUFFER_SIZE then clearPacket else p1))
      else None)"

definition doIdleState :: "32 word \<Rightarrow> AirCon \<Rightarrow> AirCon option" where
  "doIdleState now s = do {
     s1 \<leftarrow> doSequence now s;
     (case serial_rx s1 of
        [] \<Rightarrow> Some (if msec (outPacket s1) > 0 then setStateMachineState ACSM_SENDING_PACKET s1 else s1)
      | b # bs \<Rightarrow>
          if b = AC_PACKET_START_BYTE
          then Some (setStateMachineState ACSM_RECEIVING_PACKET
                       ((clearInPacket s1)\<lparr>inPacket := clearPacket\<lparr>msec := now\<rparr>\<rparr>))
          else do {
            (rest, p) \<leftarrow> idle_loop (b # bs) (inPacket s1);
            Some (s1\<lparr>serial_rx := rest, inPacket := p\<rparr>)
          })
   }"

text \<open>
  One pass of the \<^verbatim>\<open>while\<close> loop of \<^verbatim>\<open>_doReceivingPacketState\<close> stores a byte; at the
  eighth byte the pointers to the checksum and to the body are set from the header.
\<close>

definition load_byte :: "8 word \<Rightarrow> packet_t \<Rightarrow> packet_t" where
  "load_byte b p =
     (let p1 = p\<lparr>data := (data p)[unat (bytesLoaded p) := b], bytesLoaded := bytesLoaded p + 1\<rparr>
      in if unat (bytesLoaded p1) = AC_HEADER_SIZE
         then p1\<lparr>crc := Some (AC_HEADER_SIZE + unat (body_length p1)),
                 body := (if body_length p1 > 0 then Some AC_HEADER_SIZE else body p1)\<rparr>
         else p1)"

definition packet_loaded :: "packet_t \<Rightarrow> bool" where
  "packet_loaded p = (unat (bytesLoaded p) = AC_HEADER_SIZE + unat (body_length p) + 2)"

text \<open>
  The loop itself. The result says how it ended: with a \<^verbatim>\<open>return\<close> (overflow, or packet
  loaded) or by running out of bytes.
\<close>

datatype receive_end = Rx_overflow | Rx_loaded | Rx_drained

fun receiving_loop :: "8 word list \<Rightarrow> packet_t \<Rightarrow> receive_end \<times> 8 word list \<times> packet_t" where
  "receiving_loop [] p = (Rx_drained, [], p)"
| "receiving_loop (b # bs) p =
     (if unat (bytesLoaded p) \<ge> AC_BUFFER_SIZE then (Rx_overflow, b # bs, p)
      else let p1 = load_byte b p
           in if packet_loaded p1 then (Rx_loaded, bs, p1) else receiving_loop bs p1)"

definition doReceivingPacketState :: "32 word \<Rightarrow> AirCon \<Rightarrow> AirCon" where
  "doReceivingPacketState now s =
     (case receiving_loop (serial_rx s) (inPacket s) of
        (Rx_overflow, rest, p) \<Rightarrow>
          setStateMachineState ACSM_IDLE (clearInPacket (s\<lparr>serial_rx := rest, inPacket := p\<rparr>))
      | (Rx_loaded, rest, p) \<Rightarrow>
          setStateMachineState ACSM_PARSING_PACKET (s\<lparr>serial_rx := rest, inPacket := p\<rparr>)
      | (Rx_drained, rest, p) \<Rightarrow>
          (let s1 = s\<lparr>serial_rx := rest, inPacket := p\<rparr>
           in if unat (now - msec (inPacket s1)) \<ge> AC_PACKET_TIMEOUT
              then setStateMachineState ACSM_IDLE (clearInPacket s1)
              else s1))"

text \<open>
  The decoding of a small status packet in \<^verbatim>\<open>_doParsingPacket\<close>
  (\<^verbatim>\<open>case AC_CMD_STATUS_SMALL\<close>): the fields are read through \<^verbatim>\<open>_inPacket.body\<close>, the
  flag says whether a decoded field differs from the stored one.
\<close>

definition target_temp :: "8 word \<Rightarrow> 8 word \<Rightarrow> rat" where
  "target_temp b2 b4 = 8 + of_nat (unat (drop_bit 3 b2)) + (1 / 2) * of_nat (unat (drop_bit 7 b4))"

definition parse_small :: "8 word list \<Rightarrow> nat option \<Rightarrow> ac_command_t \<Rightarrow> (bool \<times> ac_command_t) option" where
  "parse_small d p st = do {
     b2 \<leftarrow> rd d p 2;
     b4 \<leftarrow> rd d p 4;
     b3 \<leftarrow> rd d p 3;
     b5 \<leftarrow> rd d p 5;
     b6 \<leftarrow> rd d p 6;
     b7 \<leftarrow> rd d p 7;
     b10 \<leftarrow> rd d p 10;
     b12 \<leftarrow> rd d p 12;
     Some (temp_target st \<noteq> target_temp b2 b4
           \<or> louver_v st \<noteq> b2 AND AC_LOUVERV_MASK
           \<or> louver_h st \<noteq> b3 AND AC_LOUVERH_MASK
           \<or> fanSpeed st \<noteq> b5 AND AC_FANSPEED_MASK
           \<or> fanTurbo st \<noteq> b6 AND AC_FANTURBO_MASK
           \<or> fanMute st \<noteq> b6 AND AC_FANMUTE_MASK
           \<or> mode st \<noteq> b7 AND AC_MODE_MASK
           \<or> sleep st \<noteq> b7 AND AC_SLEEP_MASK
           \<or> iFeel st \<noteq> b7 AND AC_IFEEL_MASK
           \<or> power_st st \<noteq> b10 AND AC_POWER_MASK
           \<or> health st \<noteq> b10 AND AC_HEALTH_MASK
           \<or> health_status st \<noteq> b10 AND AC_HEALTH_STATUS_MASK
           \<or> clean st \<noteq> b10 AND AC_CLEAN_MASK
           \<or> display st \<noteq> b12 AND AC_DISPLAY_MASK
           \<or> mildew st \<noteq> b12 AND AC_MILDEW_MASK,
           st\<lparr>temp_target := target_temp b2 b4,
              temp_target_matter := True,
              louver_v := b2 AND AC_LOUVERV_MASK,
              louver_h := b3 AND AC_LOUVERH_MASK,
              fanSpeed := b5 AND AC_FANSPEED_MASK,
              fanTurbo := b6 AND AC_FANTURBO_MASK,
              fanMute := b6 AND AC_FANMUTE_MASK,
              mode := b7 AND AC_MODE_MASK,
              sleep := b7 AND AC_SLEEP_MASK,
              iFeel := b7 AND AC_IFEEL_MASK,
              power_st := b10 AND AC_POWER_MASK,
              health := b10 AND AC_HEALTH_MASK,
              health_status := b10 AND AC_HEALTH_STATUS_MASK,
              clean := b10 AND AC_CLEAN_MASK,
              display := b12 AND AC_DISPLAY_MASK,
              mildew := b12 AND AC_MILDEW_MASK\<rparr>)
   }"

text \<open>
  The decoding of a big or periodic status packet. The ambient temperature is the rational
  \<open>b7 - 32 + b23 / 10\<close> that the expression of the source denotes; the source stores its
  rounding to \<^verbatim>\<open>float\<close>, which differs from it when the tenths are not a binary fraction
  (25.3 is stored as the nearest \<^verbatim>\<open>float\<close>). Two such values are equal as rationals exactly
  when their roundings are equal, so the flag is the one of the source.
\<close>

definition parse_big :: "8 word list \<Rightarrow> nat option \<Rightarrow> ac_command_t \<Rightarrow> (bool \<times> ac_command_t) option" where
  "parse_big d p st = do {
     b7 \<leftarrow> rd d p 7;
     b23 \<leftarrow> rd d p 23;
     b9 \<leftarrow> rd d p 9;
     let amb = of_nat (unat b7) - 32 + of_nat (unat b23) / 10;
         out = of_nat (unat b9) - 32
     in Some (temp_ambient st \<noteq> amb \<or> temp_outdoor st \<noteq> out,
              st\<lparr>temp_ambient := amb, temp_outdoor := out\<rparr>)
   }"

definition notify :: "bool \<times> ac_command_t \<Rightarrow> AirCon \<Rightarrow> AirCon" where
  "notify r s = (let s1 = s\<lparr>current_ac_state := snd r\<rparr> in if fst r then stateChanged s1 else s1)"

text \<open>\<^verbatim>\<open>case AC_PTYPE_INFO\<close>: the dispatch on \<^verbatim>\<open>_inPacket.body[1]\<close>.\<close>

definition parse_info :: "AirCon \<Rightarrow> AirCon option" where
  "parse_info s = do {
     b1 \<leftarrow> rd (data (inPacket s)) (body (inPacket s)) 1;
     s1 \<leftarrow> (if b1 = AC_CMD_STATUS_SMALL
            then do { r \<leftarrow> parse_small (data (inPacket s)) (body (inPacket s)) (current_ac_state s);
                      Some (notify r s) }
            else if b1 = AC_CMD_STATUS_BIG \<or> b1 = AC_CMD_STATUS_PERIODIC
            then do { r \<leftarrow> parse_big (data (inPacket s)) (body (inPacket s)) (current_ac_state s);
                      Some (notify r s) }
            else Some s);
     Some (setStateMachineState ACSM_IDLE s1)
   }"

text \<open>\<^verbatim>\<open>case AC_PTYPE_PING\<close>: the answer to a ping is put into the outgoing packet.\<close>

definition ping_answer :: "32 word \<Rightarrow> AirCon \<Rightarrow> AirCon option" where
  "ping_answer now s =
     (let s1 = clearOutPacket s;
          out = (outPacket s1)\<lparr>msec := now, body := Some AC_HEADER_SIZE,
                               crc := Some (AC_HEADER_SIZE + 8),
                               data := (data (outPacket s1))[2 := AC_PTYPE_PING, 4 := 0x01, 6 := 8,
                                                              8 := 0x1C, 9 := 0x27]\<rparr>
      in do {
        out2 \<leftarrow> setCRC16 out;
        let s2 = s1\<lparr>outPacket := out2\<lparr>bytesLoaded := 18\<rparr>\<rparr>;
        s3 \<leftarrow> (if \<not> startupSequenceComlete s2
               then do { (r, s') \<leftarrow> startupSequence s2; Some (s'\<lparr>startupSequenceComlete := r\<rparr>) }
               else Some s2);
        Some (setStateMachineState ACSM_SENDING_PACKET s3)
      })"

definition dispatch_packet :: "32 word \<Rightarrow> AirCon \<Rightarrow> AirCon option" where
  "dispatch_packet now s =
     (if packet_type (inPacket s) = AC_PTYPE_PING then ping_answer now s
      else if packet_type (inPacket s) = AC_PTYPE_CMD
      then Some (setStateMachineState ACSM_IDLE (clearInPacket s))
      else if packet_type (inPacket s) = AC_PTYPE_INFO then parse_info s
      else Some (setStateMachineState ACSM_IDLE s))"

definition doParsingPacket :: "32 word \<Rightarrow> AirCon \<Rightarrow> AirCon option" where
  "doParsingPacket now s = do {
     (ok, p) \<leftarrow> checkCRC (inPacket s);
     let s0 = s\<lparr>inPacket := p\<rparr>;
     if \<not> ok then Some (setStateMachineState ACSM_IDLE (clearInPacket s0))
     else do {
       s1 \<leftarrow> dispatch_packet now s0;
       s2 \<leftarrow> (if hasSequence s1 then doSequence now s1 else Some s1);
       Some (clearInPacket s2)
     }
   }"

definition doSendingPacketState :: "AirCon \<Rightarrow> AirCon" where
  "doSendingPacketState s =
     (if msec (outPacket s) = 0 \<or> crc (outPacket s) = None \<or> bytesLoaded (outPacket s) = 0
      then setStateMachineState ACSM_IDLE s
      else setStateMachineState ACSM_IDLE
             (clearOutPacket (s\<lparr>serial_tx := serial_tx s
                                   @ take (unat (bytesLoaded (outPacket s))) (data (outPacket s))\<rparr>)))"

text \<open>
  \<^verbatim>\<open>loop()\<close>: one tick of the state machine, then the periodic request of the status.
\<close>

definition loop :: "32 word \<Rightarrow> AirCon \<Rightarrow> AirCon option" where
  "loop now s =
     (if \<not> hw_initialized s then Some s
      else do {
        s1 \<leftarrow> (case ac_state s of
                 ACSM_RECEIVING_PACKET \<Rightarrow> Some (doReceivingPacketState now s)
               | ACSM_PARSING_PACKET \<Rightarrow> doParsingPacket now s
               | ACSM_SENDING_PACKET \<Rightarrow> Some (doSendingPacketState s)
               | ACSM_IDLE \<Rightarrow> doIdleState now s);
        if unat (now - dataMillis s1) > AC_STATES_REQUEST_INTERVAL
        then do {
          (r, s2) \<leftarrow> startupSequence (s1\<lparr>dataMillis := now\<rparr>);
          let c = cnt s2 + 1
          in Some (s2\<lparr>cnt := (if c > 7 then 0 else c)\<rparr>)
        }
        else Some s1
      })"


section \<open>Reference definitions and concrete inputs\<close>

subsection \<open>The checksum as the specification words it\<close>

text \<open>
  The bytes read as big-endian 16-bit words, an odd trailing byte padded with a zero
  byte; the words are summed in a 32-bit accumulator, its upper half is added to its
  lower half, and the low 16 bits of the complement are the checksum.
\<close>

fun be_words :: "8 word list \<Rightarrow> 32 word list" where
  "be_words [] = []"
| "be_words [a] = [push_bit 8 (ucast a)]"
| "be_words (a # b # xs) = (push_bit 8 (ucast a) + ucast b) # be_words xs"

definition checksum_spec :: "8 word list \<Rightarrow> 16 word" where
  "checksum_spec bytes =
     (let acc = sum_list (be_words bytes)
      in ucast (NOT (drop_bit 16 acc + (acc AND 0xFFFF))))"

definition high_byte :: "16 word \<Rightarrow> 8 word" where
  "high_byte c = ucast (drop_bit 8 c)"

definition low_byte :: "16 word \<Rightarrow> 8 word" where
  "low_byte c = ucast c"

text \<open>The two bytes that follow the body of a packet.\<close>

definition stored_crc :: "packet_t \<Rightarrow> 8 word \<times> 8 word" where
  "stored_crc p = (data p ! (AC_HEADER_SIZE + unat (body_length p)),
                   data p ! (AC_HEADER_SIZE + unat (body_length p) + 1))"

text \<open>The header of a ping packet of the air conditioner, without its checksum.\<close>

definition ping_request :: packet_t where
  "ping_request = clearPacket\<lparr>data := [0xBB, 0, 1, 0, 0, 0, 0, 0] @ replicate 26 0\<rparr>"

text \<open>\<^verbatim>\<open>initAC(parent)\<close> at time \<open>now\<close>; \<open>hw\<close> says whether \<open>parent\<close> is a serial port.\<close>

definition initAC :: "32 word \<Rightarrow> bool \<Rightarrow> AirCon" where
  "initAC now hw =
     clearSequence (clearOutPacket
       \<lparr>dataMillis = now, cnt = 0, ac_state = ACSM_IDLE, current_ac_state = clearCommand,
        hw_initialized = hw, inPacket = clearPacket, outPacket = clearPacket,
        sequence = replicate AC_SEQUENCE_MAX_LEN empty_item, sequence_current_step = 0,
        startupSequenceComlete = False, serial_rx = [], serial_tx = [], published = []\<rparr>)"

text \<open>A step that calls \<open>f\<close>, as the sequence builders leave it in a cleared slot.\<close>

definition func_item :: "sq_func \<Rightarrow> sequence_item_t" where
  "func_item f = empty_item\<lparr>item_type := AC_SIT_FUNC, func := Some f\<rparr>"

text \<open>The component after \<^verbatim>\<open>startupSequence()\<close> has loaded its four steps.\<close>

definition startup_loaded :: AirCon where
  "startup_loaded =
     (initAC 0 True)\<lparr>sequence :=
        [func_item AirCon_sq_requestSmallStatus, func_item AirCon_sq_controlSmallStatus,
         func_item AirCon_sq_requestBigStatus, func_item AirCon_sq_controlBigStatus]
        @ replicate 11 empty_item\<rparr>"

definition power_on_cmd :: ac_command_t where
  "power_on_cmd = clearCommand\<lparr>power_st := AC_POWER_ON\<rparr>"

text \<open>A ping packet of the air conditioner as the receiver leaves it in the incoming packet.\<close>

definition ping_packet :: packet_t where
  "ping_packet = \<lparr>msec = 1, crc = Some 8, body = None, bytesLoaded = 10,
                   data = [0xBB, 0, 1, 0, 0, 0, 0, 0, 0x43, 0xFF] @ replicate 24 0\<rparr>"

text \<open>The startup sequence waiting at its second step while a ping packet has arrived.\<close>

definition waiting_with_ping :: AirCon where
  "waiting_with_ping = startup_loaded\<lparr>inPacket := ping_packet, sequence_current_step := 1\<rparr>"

text \<open>The step the cursor points to, its start time once stamped, and its timeout in effect.\<close>

definition current_item :: "AirCon \<Rightarrow> sequence_item_t" where
  "current_item s = sequence s ! unat (sequence_current_step s)"

definition step_start :: "32 word \<Rightarrow> sequence_item_t \<Rightarrow> 32 word" where
  "step_start now it = (if item_msec it = 0 then now else item_msec it)"

definition effective_timeout :: "sequence_item_t \<Rightarrow> nat" where
  "effective_timeout it = (if timeout it = 0 then 500 else unat (timeout it))"

text \<open>
  The startup sequence waiting at its second step, which started at time 100 with no
  timeout stored, while a ping packet has arrived.
\<close>

definition waiting_since_100 :: AirCon where
  "waiting_since_100 =
     waiting_with_ping\<lparr>sequence := (sequence waiting_with_ping)
        [1 := (func_item AirCon_sq_controlSmallStatus)\<lparr>item_msec := 100\<rparr>]\<rparr>"

text \<open>
  What the loading of a packet maintains from the moment \<^verbatim>\<open>_doIdleState\<close> has cleared the
  incoming packet: the pointers are null before the header is complete, and afterwards they
  are the ones the header gives.
\<close>

definition receiving_inv :: "packet_t \<Rightarrow> bool" where
  "receiving_inv p =
     (length (data p) = AC_BUFFER_SIZE
      \<and> (if unat (bytesLoaded p) < AC_HEADER_SIZE
         then crc p = None \<and> body p = None
         else crc p = Some (AC_HEADER_SIZE + unat (body_length p))
              \<and> body p = (if body_length p > 0 then Some AC_HEADER_SIZE else None)))"

text \<open>
  The receiver has just been started by a start byte at time 1, and 34 bytes wait in the
  UART: a header that announces a body of 30 bytes, and 26 more bytes.
\<close>

definition receiving_34 :: AirCon where
  "receiving_34 =
     (initAC 0 True)\<lparr>ac_state := ACSM_RECEIVING_PACKET, inPacket := clearPacket\<lparr>msec := 1\<rparr>,
                      serial_rx := [0xBB, 0, 7, 0, 0, 0, 30, 0, 0, 0, 0, 0, 0, 0, 0, 0, 0, 0, 0, 0, 0, 0,
                                    0, 0, 0, 0, 0, 0, 0, 0, 0, 0, 0, 0]\<rparr>"

text \<open>The same packet with its buffer full, and one more byte waiting in the UART.\<close>

definition receiving_full :: AirCon where
  "receiving_full =
     (initAC 0 True)\<lparr>ac_state := ACSM_RECEIVING_PACKET,
        inPacket := \<lparr>msec = 1, crc = Some 38, body = Some 8, bytesLoaded = 34,
                      data = [0xBB, 0, 7, 0, 0, 0, 30, 0] @ replicate 26 0\<rparr>,
        serial_rx := [0]\<rparr>"

text \<open>An info packet with an empty body and a correct checksum waits in the UART.\<close>

definition receiving_empty_info :: AirCon where
  "receiving_empty_info =
     (initAC 0 True)\<lparr>ac_state := ACSM_RECEIVING_PACKET, inPacket := clearPacket\<lparr>msec := 1\<rparr>,
                      serial_rx := [0xBB, 0, 7, 0, 0, 0, 0, 0, 0x3D, 0xFF]\<rparr>"

text \<open>The incoming packet has been reset to empty and the state machine is idle.\<close>

definition discarded :: "AirCon \<Rightarrow> bool" where
  "discarded s = (inPacket s = clearPacket \<and> ac_state s = ACSM_IDLE)"

text \<open>
  What the sequence engine leaves alone. Its step functions write the outgoing packet, the
  sequence and the cursor; the set-command step also stores the clamped target temperature
  back into the AC state.
\<close>

definition seq_frame :: "AirCon \<Rightarrow> AirCon \<Rightarrow> bool" where
  "seq_frame s s' =
     (ac_state s' = ac_state s \<and> inPacket s' = inPacket s \<and> published s' = published s
      \<and> serial_rx s' = serial_rx s \<and> serial_tx s' = serial_tx s
      \<and> hw_initialized s' = hw_initialized s
      \<and> startupSequenceComlete s' = startupSequenceComlete s
      \<and> dataMillis s' = dataMillis s \<and> cnt s' = cnt s
      \<and> (current_ac_state s' = current_ac_state s
         \<or> current_ac_state s' = clamp_temp (current_ac_state s)))"

text \<open>The checksum of a packet has been verified and is correct.\<close>

definition checksum_ok :: "packet_t \<Rightarrow> bool" where
  "checksum_ok p = (map_option fst (checkCRC p) = Some True)"

text \<open>A ping packet has been loaded and is to be parsed.\<close>

definition parsing_ping :: AirCon where
  "parsing_ping = (initAC 0 True)\<lparr>ac_state := ACSM_PARSING_PACKET, inPacket := ping_packet,
                                   startupSequenceComlete := True\<rparr>"

text \<open>The same packet with a damaged checksum byte.\<close>

definition parsing_damaged :: AirCon where
  "parsing_damaged = parsing_ping\<lparr>inPacket := ping_packet\<lparr>data := (data ping_packet)[9 := 0]\<rparr>\<rparr>"

text \<open>
  A small status packet with a correct checksum has been loaded: target temperature byte
  \<open>0x98\<close>, the high bit of the fraction byte set; no sequence is loaded.
\<close>

definition small_status_packet :: packet_t where
  "small_status_packet =
     \<lparr>msec = 1, crc = Some 23, body = Some 8, bytesLoaded = 25,
      data = [0xBB, 0, 7, 0, 0, 0, 15, 0,
              0x01, 0x11, 0x98, 0xE0, 0x80, 0xA0, 0, 0x20, 0, 0, 0x20, 0, 0, 0, 0,
              0xF4, 0x4C] @ replicate 9 0\<rparr>"

definition parsing_small_status :: AirCon where
  "parsing_small_status =
     (initAC 0 True)\<lparr>ac_state := ACSM_PARSING_PACKET, inPacket := small_status_packet,
                      startupSequenceComlete := True\<rparr>"

subsection \<open>The set-command body, byte by byte\<close>

text \<open>
  The buffer of a set-command packet before its checksum is stored, and the two checksum
  bytes added to a buffer with a body of 15 bytes.
\<close>

definition set_params_data :: "ac_command_t \<Rightarrow> 8 word list \<Rightarrow> 8 word list" where
  "set_params_data c d =
     fill_fields (clamp_temp c)
       (d[0 := AC_PACKET_START_BYTE, 3 := AC_PACKET_ANSWER, 2 := AC_PTYPE_CMD, 6 := 15,
          8 := AC_CMD_SET_PARAMS, 9 := 0x01])"

definition with_crc :: "8 word list \<Rightarrow> 8 word list" where
  "with_crc d = d[23 := high_byte (checksum_spec (take 23 d)),
                  24 := low_byte (checksum_spec (take 23 d))]"

text \<open>What the writes of one parameter, and of the target temperature, do to one body byte.\<close>

definition ov :: "8 word \<Rightarrow> 8 word \<Rightarrow> 8 word \<Rightarrow> 8 word \<Rightarrow> 8 word" where
  "ov v untouched msk x = (if v \<noteq> untouched then (x AND NOT msk) OR v else x)"

definition temp_int_byte :: "ac_command_t \<Rightarrow> 8 word \<Rightarrow> 8 word" where
  "temp_int_byte c x =
     (if temp_target_matter c
      then (x AND NOT AC_TEMP_TARGET_INT_PART_MASK) OR push_bit 3 (of_int \<lfloor>temp_target c\<rfloor> - 8)
      else x)"

definition temp_frac_byte :: "ac_command_t \<Rightarrow> 8 word \<Rightarrow> 8 word" where
  "temp_frac_byte c x =
     (if temp_target_matter c
      then (x AND NOT AC_TEMP_TARGET_FRAC_PART_MASK)
           OR (if temp_target c - of_int \<lfloor>temp_target c\<rfloor> > 0 then 1 else 0)
      else x)"

subsection \<open>The round trip of a command\<close>

text \<open>
  A parameter value that uses only the bits of its mask, as every named value of the
  enumerations does and as the decoder produces; a command may also leave the parameter
  untouched.
\<close>

definition in_mask :: "8 word \<Rightarrow> 8 word \<Rightarrow> bool" where
  "in_mask msk v = (v AND msk = v)"

definition settable :: "8 word \<Rightarrow> 8 word \<Rightarrow> 8 word \<Rightarrow> bool" where
  "settable msk untouched v = (v = untouched \<or> in_mask msk v)"

definition whole_16_32 :: "rat \<Rightarrow> bool" where
  "whole_16_32 t = (t = of_int \<lfloor>t\<rfloor> \<and> 16 \<le> t \<and> t \<le> 32)"

definition command_ok :: "ac_command_t \<Rightarrow> bool" where
  "command_ok c =
     (settable AC_POWER_MASK AC_POWER_UNTOUCHED (power_st c)
      \<and> settable AC_CLEAN_MASK AC_CLEAN_UNTOUCHED (clean c)
      \<and> settable AC_HEALTH_MASK AC_HEALTH_UNTOUCHED (health c)
      \<and> settable AC_MODE_MASK AC_MODE_UNTOUCHED (mode c)
      \<and> settable AC_SLEEP_MASK AC_SLEEP_UNTOUCHED (sleep c)
      \<and> settable AC_IFEEL_MASK AC_IFEEL_UNTOUCHED (iFeel c)
      \<and> settable AC_LOUVERH_MASK AC_LOUVERH_UNTOUCHED (louver_h c)
      \<and> settable AC_LOUVERV_MASK AC_LOUVERV_UNTOUCHED (louver_v c)
      \<and> settable AC_FANSPEED_MASK AC_FANSPEED_UNTOUCHED (fanSpeed c)
      \<and> settable AC_FANTURBO_MASK AC_FANTURBO_UNTOUCHED (fanTurbo c)
      \<and> settable AC_FANMUTE_MASK AC_FANMUTE_UNTOUCHED (fanMute c)
      \<and> settable AC_DISPLAY_MASK AC_DISPLAY_UNTOUCHED (display c)
      \<and> settable AC_MILDEW_MASK AC_MILDEW_UNTOUCHED (mildew c))"

definition state_ok :: "ac_command_t \<Rightarrow> bool" where
  "state_ok st =
     (in_mask AC_POWER_MASK (power_st st)
      \<and> in_mask AC_CLEAN_MASK (clean st)
      \<and> in_mask AC_HEALTH_MASK (health st)
      \<and> in_mask AC_MODE_MASK (mode st)
      \<and> in_mask AC_SLEEP_MASK (sleep st)
      \<and> in_mask AC_IFEEL_MASK (iFeel st)
      \<and> in_mask AC_LOUVERH_MASK (louver_h st)
      \<and> in_mask AC_LOUVERV_MASK (louver_v st)
      \<and> in_mask AC_FANSPEED_MASK (fanSpeed st)
      \<and> in_mask AC_FANTURBO_MASK (fanTurbo st)
      \<and> in_mask AC_FANMUTE_MASK (fanMute st)
      \<and> in_mask AC_DISPLAY_MASK (display st)
      \<and> in_mask AC_MILDEW_MASK (mildew st))"

text \<open>The target temperature that the packet takes is a whole number between 16 and 32.\<close>

definition temp_ok :: "ac_command_t \<Rightarrow> ac_command_t \<Rightarrow> bool" where
  "temp_ok c st =
     (if temp_target_matter c then whole_16_32 (temp_target c)
      else temp_target_matter st \<and> whole_16_32 (temp_target st))"

definition merged :: "8 word \<Rightarrow> 8 word \<Rightarrow> 8 word \<Rightarrow> 8 word" where
  "merged untouched v old = (if v = untouched then old else v)"

text \<open>
  The decoded state \<open>d\<close> has every parameter that the command \<open>c\<close> sets, and the value of
  the AC state \<open>st\<close> for every parameter the command leaves untouched. The status of the
  ioniser, which no command sets, is not part of it.
\<close>

definition round_trip :: "ac_command_t \<Rightarrow> ac_command_t \<Rightarrow> ac_command_t \<Rightarrow> bool" where
  "round_trip c st d =
     (temp_target d = (if temp_target_matter c then temp_target c else temp_target st)
      \<and> power_st d = merged AC_POWER_UNTOUCHED (power_st c) (power_st st)
      \<and> clean d = merged AC_CLEAN_UNTOUCHED (clean c) (clean st)
      \<and> health d = merged AC_HEALTH_UNTOUCHED (health c) (health st)
      \<and> mode d = merged AC_MODE_UNTOUCHED (mode c) (mode st)
      \<and> sleep d = merged AC_SLEEP_UNTOUCHED (sleep c) (sleep st)
      \<and> iFeel d = merged AC_IFEEL_UNTOUCHED (iFeel c) (iFeel st)
      \<and> louver_h d = merged AC_LOUVERH_UNTOUCHED (louver_h c) (louver_h st)
      \<and> louver_v d = merged AC_LOUVERV_UNTOUCHED (louver_v c) (louver_v st)
      \<and> fanSpeed d = merged AC_FANSPEED_UNTOUCHED (fanSpeed c) (fanSpeed st)
      \<and> fanTurbo d = merged AC_FANTURBO_UNTOUCHED (fanTurbo c) (fanTurbo st)
      \<and> fanMute d = merged AC_FANMUTE_UNTOUCHED (fanMute c) (fanMute st)
      \<and> display d = merged AC_DISPLAY_UNTOUCHED (display c) (display st)
      \<and> mildew d = merged AC_MILDEW_UNTOUCHED (mildew c) (mildew st))"

text \<open>
  The AC state as a small status packet of an air conditioner that is switched on gives
  it: cooling at 24 degrees, fan speed low, louvers off, ioniser status on.
\<close>

definition cooling_state :: ac_command_t where
  "cooling_state =
     \<lparr>power_st = 0x20, temp_target = 24, temp_target_matter = True,
      temp_ambient = 25, temp_outdoor = 30, clean = 0, health = 0x02, health_status = 0x01,
      mode = 0x20, sleep = 0, iFeel = 0, louver_h = 0xE0, louver_v = 0x07,
      fanSpeed = 0x60, fanTurbo = 0, fanMute = 0, display = 0, mildew = 0\<rparr>"

text \<open>A command that sets the mode to heating and the target temperature to 21 degrees.\<close>

definition heat_21_cmd :: ac_command_t where
  "heat_21_cmd = clearCommand\<lparr>mode := 0x80, temp_target := 21, temp_target_matter := True\<rparr>"

text \<open>The command is the third step of a command sequence, the AC state is as above.\<close>

definition command_loaded :: AirCon where
  "command_loaded =
     (initAC 0 True)\<lparr>current_ac_state := cooling_state,
        sequence := [func_item AirCon_sq_requestSmallStatus, func_item AirCon_sq_controlSmallStatus,
                     (func_item AirCon_sq_requestDoCommand)\<lparr>cmd := heat_21_cmd\<rparr>,
                     func_item AirCon_sq_controlDoCommand,
                     func_item AirCon_sq_requestSmallStatus, func_item AirCon_sq_controlSmallStatus]
                    @ replicate 9 empty_item,
        sequence_current_step := 2\<rparr>"

text \<open>
  Encoding a command into the outgoing packet, as \<^verbatim>\<open>sq_requestDoCommand\<close> does for the
  step \<open>i\<close>, and decoding the body of that packet as a small status body.
\<close>

definition encode_decode :: "32 word \<Rightarrow> nat \<Rightarrow> AirCon \<Rightarrow> ac_command_t option" where
  "encode_decode now i s = do {
     s' \<leftarrow> fillSetCommand now True Ref_outPacket (Ref_sequence_cmd i) s;
     r \<leftarrow> parse_small (data (outPacket s')) (body (outPacket s')) (current_ac_state s');
     Some (snd r)
   }"

text \<open>The same with a command that sets the target temperature to 27.5 degrees.\<close>

definition half_degree_cmd :: ac_command_t where
  "half_degree_cmd = clearCommand\<lparr>temp_target := 55 / 2, temp_target_matter := True\<rparr>"

definition half_degree_loaded :: AirCon where
  "half_degree_loaded =
     command_loaded\<lparr>sequence := (sequence command_loaded)
        [2 := (func_item AirCon_sq_requestDoCommand)\<lparr>cmd := half_degree_cmd\<rparr>]\<rparr>"

subsection \<open>What a pass of the loop does to the AC state\<close>

text \<open>
  No AC state has been handed to \<^verbatim>\<open>stateChanged()\<close>, and the AC state is the same, its
  target temperature brought into the range of 16 to 32 degrees at most.
\<close>

definition ac_kept :: "AirCon \<Rightarrow> AirCon \<Rightarrow> bool" where
  "ac_kept s s' =
     (published s' = published s
      \<and> (current_ac_state s' = current_ac_state s
         \<or> current_ac_state s' = clamp_temp (current_ac_state s)))"

text \<open>The pass of the loop parses an info packet with a correct checksum.\<close>

definition decodes_info :: "AirCon \<Rightarrow> bool" where
  "decodes_info s =
     (hw_initialized s \<and> ac_state s = ACSM_PARSING_PACKET \<and> checksum_ok (inPacket s)
      \<and> packet_type (inPacket s) = AC_PTYPE_INFO)"

text \<open>
  The AC state as a small status packet with the temperature bits \<open>00000\<close> gives it, a
  target temperature of 8 degrees; the component is idle, nothing waits in the UART, and
  the command sequence is at its third step.
\<close>

definition cold_state :: ac_command_t where
  "cold_state = cooling_state\<lparr>temp_target := 8\<rparr>"

definition cold_idle :: AirCon where
  "cold_idle = command_loaded\<lparr>current_ac_state := cold_state\<rparr>"

section \<open>Properties\<close>

subsection \<open>Checksum\<close>

lemma be_words_pad: "odd (length xs) \<Longrightarrow> be_words (xs @ [0]) = be_words xs"
  by (induction xs rule: be_words.induct) auto

lemma CRC16_loop_sum:
  "even i \<Longrightarrow> even n \<Longrightarrow> n \<le> length buf \<Longrightarrow> i \<le> n \<Longrightarrow>
   CRC16_loop buf n i acc = acc + sum_list (be_words (drop i (take n buf)))"
proof (induction buf n i acc rule: CRC16_loop.induct)
  case (1 buf len i acc)
  show ?case
  proof (cases "i < len")
    case False
    with 1 show ?thesis by (simp add: CRC16_loop.simps)
  next
    case True
    with 1(2,3) have i2: "i + 2 \<le> len" by presburger
    have si: "Suc i < len" using i2 by simp
    have d: "drop i (take len buf) = buf ! i # buf ! (i + 1) # drop (i + 2) (take len buf)"
      using True si 1(4)
      by (simp add: Cons_nth_drop_Suc [symmetric])
    have "CRC16_loop buf len i acc
          = CRC16_loop buf len (i + 2) (acc + (push_bit 8 (ucast (buf ! i)) + ucast (buf ! (i + 1))))"
      using True by (subst CRC16_loop.simps) simp
    also have "\<dots> = (acc + (push_bit 8 (ucast (buf ! i)) + ucast (buf ! (i + 1))))
                    + sum_list (be_words (drop (i + 2) (take len buf)))"
      using 1 True i2 by simp
    finally show ?thesis by (simp add: d add.assoc)
  qed
qed

lemma ucast_low16: "(ucast (x AND 0xFFFF) :: 16 word) = ucast (x :: 32 word)"
proof -
  have m: "(0xFFFF :: 32 word) = mask 16" by (simp add: mask_eq_exp_minus_1)
  show ?thesis unfolding m by (rule bit_word_eqI) (auto simp: bit_simps)
qed

lemma CRC16_spec:
  assumes len: "unat len \<le> 33" and dat: "length dat = AC_BUFFER_SIZE"
  shows "CRC16 dat len = Some (checksum_spec (take (unat len) dat))"
proof -
  let ?n = "unat len"
  let ?buf = "take ?n dat @ replicate (AC_BUFFER_SIZE - ?n) 0"
  let ?n2 = "unat (if ?n mod 2 = 1 then len + 1 else len)"
  have n2: "?n2 = (if odd ?n then ?n + 1 else ?n)"
    using len by (auto simp: unat_word_ariths odd_iff_mod_2_eq_one)
  have lb: "length ?buf = AC_BUFFER_SIZE" using len dat by (simp add: AC_BUFFER_SIZE_def)
  have "CRC16_loop ?buf ?n2 0 0 = 0 + sum_list (be_words (drop 0 (take ?n2 ?buf)))"
    by (rule CRC16_loop_sum) (use len lb n2 in \<open>auto simp: AC_BUFFER_SIZE_def\<close>)
  moreover have "be_words (take ?n2 ?buf) = be_words (take ?n dat)"
  proof (cases "odd ?n")
    case True
    have "take ?n2 ?buf = take ?n dat @ [0]"
      using True len dat n2 by (simp add: AC_BUFFER_SIZE_def min_def take_Suc_conv_app_nth)
    then show ?thesis using True len dat by (simp add: be_words_pad AC_BUFFER_SIZE_def)
  next
    case False
    then show ?thesis using len dat n2 by (simp add: AC_BUFFER_SIZE_def)
  qed
  ultimately have "CRC16_loop ?buf ?n2 0 0 = sum_list (be_words (take ?n dat))" by simp
  then show ?thesis
    using len unfolding CRC16_def checksum_spec_def Let_def
    by (simp add: AC_BUFFER_SIZE_def ucast_low16)
qed


lemma unat_header_plus:
  "unat (bl :: 8 word) \<le> 24 \<Longrightarrow> unat (8 + bl) = 8 + unat bl"
  by (simp add: unat_word_ariths)

lemma setCRC16_eq:
  assumes dat: "length (data pack) = AC_BUFFER_SIZE"
      and bl: "unat (body_length pack) \<le> AC_MAX_BODY_SIZE"
      and ptr: "crc pack = None \<or> crc pack = Some (AC_HEADER_SIZE + unat (body_length pack))"
  shows "CRC16 (data pack) (8 + body_length pack)
           = Some (checksum_spec (take (AC_HEADER_SIZE + unat (body_length pack)) (data pack)))
         \<and> setCRC16 pack
           = Some (pack\<lparr>crc := Some (AC_HEADER_SIZE + unat (body_length pack)),
                        data := (data pack)
                          [AC_HEADER_SIZE + unat (body_length pack)
                             := high_byte (checksum_spec (take (AC_HEADER_SIZE + unat (body_length pack)) (data pack))),
                           AC_HEADER_SIZE + unat (body_length pack) + 1
                             := low_byte (checksum_spec (take (AC_HEADER_SIZE + unat (body_length pack)) (data pack)))]\<rparr>)"
proof -
  let ?n = "AC_HEADER_SIZE + unat (body_length pack)"
  have u: "unat (8 + body_length pack) = ?n"
    using bl by (simp add: unat_header_plus AC_MAX_BODY_SIZE_def AC_HEADER_SIZE_def)
  have c: "CRC16 (data pack) (8 + body_length pack) = Some (checksum_spec (take ?n (data pack)))"
    using CRC16_spec [of "8 + body_length pack" "data pack"] dat bl u
    by (simp add: AC_MAX_BODY_SIZE_def AC_HEADER_SIZE_def)
  have p: "crc_ptr pack = Some ?n"
    using ptr by (auto simp: crc_ptr_def)
  have n: "?n + 1 < AC_BUFFER_SIZE"
    using bl by (simp add: AC_MAX_BODY_SIZE_def AC_HEADER_SIZE_def AC_BUFFER_SIZE_def)
  show ?thesis
    using c p n by (simp add: setCRC16_def wr_def crc_byte_def high_byte_def low_byte_def)
qed

text \<open>
  Claim C1, as the code has it. For a packet whose body length is at most 24, \<^verbatim>\<open>_CRC16\<close>
  over the header and the body is the checksum of the specification: the sum of the
  big-endian 16-bit words (an odd trailing byte padded with zero) in a 32-bit
  accumulator, folded once and complemented. \<^verbatim>\<open>_setCRC16\<close> changes nothing but the two
  bytes after the body, and stores the high byte of the checksum first and the low byte
  second.
\<close>

theorem setCRC16_checksum_bytes:
  assumes dat: "length (data pack) = AC_BUFFER_SIZE"
      and bl: "unat (body_length pack) \<le> AC_MAX_BODY_SIZE"
      and ptr: "crc pack = None \<or> crc pack = Some (AC_HEADER_SIZE + unat (body_length pack))"
  shows "CRC16 (data pack) (8 + body_length pack)
           = Some (checksum_spec (take (AC_HEADER_SIZE + unat (body_length pack)) (data pack)))
         \<and> setCRC16 pack
           = Some (pack\<lparr>crc := Some (AC_HEADER_SIZE + unat (body_length pack)),
                        data := (data pack)
                          [AC_HEADER_SIZE + unat (body_length pack)
                             := high_byte (checksum_spec (take (AC_HEADER_SIZE + unat (body_length pack)) (data pack))),
                           AC_HEADER_SIZE + unat (body_length pack) + 1
                             := low_byte (checksum_spec (take (AC_HEADER_SIZE + unat (body_length pack)) (data pack)))]\<rparr>)"
  using assms by (rule setCRC16_eq)

theorem setCRC16_checksum_bytes_witness:
  "length (data ping_request) = AC_BUFFER_SIZE
   \<and> unat (body_length ping_request) \<le> AC_MAX_BODY_SIZE
   \<and> crc ping_request = None
   \<and> CRC16 (data ping_request) 8 = Some (checksum_spec [0xBB, 0, 1, 0, 0, 0, 0, 0])
   \<and> setCRC16 ping_request
       = Some (ping_request\<lparr>crc := Some 8,
                 data := (data ping_request)
                   [8 := high_byte (checksum_spec [0xBB, 0, 1, 0, 0, 0, 0, 0]),
                    9 := low_byte (checksum_spec [0xBB, 0, 1, 0, 0, 0, 0, 0])]\<rparr>)"
proof -
  have h1: "length (data ping_request) = AC_BUFFER_SIZE"
    by (simp add: ping_request_def AC_BUFFER_SIZE_def)
  have h2: "unat (body_length ping_request) \<le> AC_MAX_BODY_SIZE"
    by (simp add: ping_request_def body_length_def AC_MAX_BODY_SIZE_def)
  have h3: "crc ping_request = None"
    by (simp add: ping_request_def clearPacket_def)
  have b: "body_length ping_request = 0"
    by (simp add: ping_request_def body_length_def)
  have t: "take 8 (data ping_request) = [0xBB, 0, 1, 0, 0, 0, 0, 0]"
    by (simp add: ping_request_def)
  show ?thesis
    using h1 h2 h3 setCRC16_checksum_bytes [OF h1 h2 disjI1 [OF h3]]
    by (simp add: b t AC_HEADER_SIZE_def)
qed

text \<open>
  Claim C1 as stated has the low byte of the checksum first. For the header of a ping
  packet the checksum is \<open>0x43FF\<close>; the byte stored first is \<open>0x43\<close>, its high byte, and
  the byte stored second is \<open>0xFF\<close>, its low byte.
\<close>

theorem checksum_byte_order_counterexample:
  "map_option stored_crc (setCRC16 ping_request) = Some (0x43, 0xFF)
   \<and> map_option low_byte (CRC16 (data ping_request) 8) = Some 0xFF
   \<and> map_option high_byte (CRC16 (data ping_request) 8) = Some 0x43"
  by (simp add: setCRC16_def CRC16_def CRC16_loop.simps ping_request_def clearPacket_def
        body_length_def crc_ptr_def wr_def crc_byte_def stored_crc_def low_byte_def high_byte_def
        AC_BUFFER_SIZE_def AC_HEADER_SIZE_def)

subsection \<open>Building sequences\<close>

lemma startupSequence_initAC: "startupSequence (initAC 0 True) = Some (True, startup_loaded)"
  by (simp add: startupSequence_def initAC_def startup_loaded_def hasSequence_def clearSequence_def
       clearOutPacket_def set_func_def seq_get_def seq_put_def AC_SEQUENCE_MAX_LEN_def func_item_def
       empty_item_def numeral_Bit0 numeral_Bit1)

lemma scan_step_loaded: "hasSequence s \<Longrightarrow> scan_step (sequence s) 0 0 = 0"
  by (subst scan_step.simps) (simp add: hasSequence_def AC_SEQUENCE_MAX_LEN_def)

text \<open>
  Claim C3 asks that \<^verbatim>\<open>commandSequence\<close>, called while a sequence is loaded, appends its
  six steps after the loaded ones and leaves these unchanged. The loop that looks for the
  place to append stops at the first slot that is not empty, which is slot 0 whenever a
  sequence is loaded. Called with the four steps of the startup sequence loaded, the code
  writes its six steps into slots 0 to 5: the steps that request and confirm the big
  status are replaced, nothing is appended in slots 4 to 9, and the request is not
  rejected.
\<close>

theorem commandSequence_overwrites_loaded_sequence:
  "commandSequence power_on_cmd startup_loaded
     = Some (startup_loaded\<lparr>sequence :=
         [func_item AirCon_sq_requestSmallStatus, func_item AirCon_sq_controlSmallStatus,
          (func_item AirCon_sq_requestDoCommand)\<lparr>cmd := power_on_cmd\<rparr>,
          func_item AirCon_sq_controlDoCommand,
          func_item AirCon_sq_requestSmallStatus, func_item AirCon_sq_controlSmallStatus]
         @ replicate 9 empty_item\<rparr>)"
proof -
  have h: "hasSequence startup_loaded"
    by (simp add: hasSequence_def startup_loaded_def func_item_def)
  show ?thesis
    unfolding commandSequence_def scan_step_loaded [OF h]
    using h
    by (simp add: startup_loaded_def set_func_def set_cmd_def seq_get_def seq_put_def
          AC_SEQUENCE_MAX_LEN_def func_item_def numeral_Bit0 numeral_Bit1)
qed


subsection \<open>The sequence engine\<close>

lemma timed_out_effective:
  "timed_out now (default_timeout (stamp_item now it))
     = (effective_timeout it \<le> unat (now - step_start now it))"
  by (simp add: timed_out_def default_timeout_def stamp_item_def effective_timeout_def
        step_start_def AC_SEQUENCE_DEFAULT_TIMEOUT_def)

lemma clearSequence_update [simp]:
  "clearSequence (s\<lparr>sequence := sq\<rparr>) = clearSequence s"
  by (simp add: clearSequence_def)

text \<open>Before the timeout in effect has passed, the function of the step is called.\<close>

lemma function_step_before_timeout:
  assumes "hasSequence s"
      and "unat (sequence_current_step s) < AC_SEQUENCE_MAX_LEN"
      and "item_type (current_item s) = AC_SIT_FUNC"
      and "func (current_item s) = Some f"
      and "unat (now - step_start now (current_item s)) < effective_timeout (current_item s)"
  shows "doSequence now s
         = do { (ok, s2) \<leftarrow> call_func f now
                   (s\<lparr>sequence := (sequence s)[unat (sequence_current_step s)
                          := default_timeout (stamp_item now (current_item s))]\<rparr>);
                if \<not> ok then Some (clearSequence s2) else Some s2 }"
  using assms
  by (simp add: doSequence_def current_item_def [symmetric] Let_def timed_out_effective)

lemma default_timeout_effective:
  "unat (timeout (default_timeout (stamp_item now it))) = effective_timeout it"
  by (simp add: default_timeout_def stamp_item_def effective_timeout_def
        AC_SEQUENCE_DEFAULT_TIMEOUT_def)

lemma function_step_at_timeout:
  assumes "hasSequence s"
      and "unat (sequence_current_step s) < AC_SEQUENCE_MAX_LEN"
      and "item_type (current_item s) = AC_SIT_FUNC"
      and "effective_timeout (current_item s) \<le> unat (now - step_start now (current_item s))"
  shows "doSequence now s = Some (clearSequence s)"
proof (cases "func (current_item s)")
  case None
  with assms show ?thesis
    by (simp add: doSequence_def current_item_def Let_def)
next
  case (Some f)
  with assms show ?thesis
    by (simp add: doSequence_def current_item_def [symmetric] Let_def timed_out_effective)
qed

text \<open>
  Claim C5. For an active function step (a sequence is loaded and the cursor, inside the
  array, points to a function step) the timeout in effect is 500 when the stored timeout
  is 0 and the stored timeout otherwise; it is the timeout that \<^verbatim>\<open>_doSequence\<close> leaves in the
  step. Once the time since the start of the step reaches it, \<^verbatim>\<open>_doSequence\<close> returns the
  state with the sequence cleared: every slot is empty and the cursor is 0; nothing else
  has changed, so the function of the step was not called. Before that time the sequence
  is not cleared for a timeout: the function of the step is called on the state with the
  stamped step, and the sequence is cleared only if the function returns false.
\<close>

theorem function_step_clears_exactly_at_timeout:
  assumes "hasSequence s"
      and "unat (sequence_current_step s) < AC_SEQUENCE_MAX_LEN"
      and "item_type (current_item s) = AC_SIT_FUNC"
  shows "(timeout (current_item s) = 0 \<longrightarrow> effective_timeout (current_item s) = 500)
         \<and> unat (timeout (default_timeout (stamp_item now (current_item s))))
             = effective_timeout (current_item s)
         \<and> (effective_timeout (current_item s) \<le> unat (now - step_start now (current_item s))
            \<longrightarrow> doSequence now s = Some (clearSequence s))
         \<and> sequence (clearSequence s) = replicate AC_SEQUENCE_MAX_LEN empty_item
         \<and> sequence_current_step (clearSequence s) = 0
         \<and> (unat (now - step_start now (current_item s)) < effective_timeout (current_item s)
              \<and> func (current_item s) = Some f
            \<longrightarrow> doSequence now s
                  = do { (ok, s2) \<leftarrow> call_func f now
                            (s\<lparr>sequence := (sequence s)[unat (sequence_current_step s)
                                   := default_timeout (stamp_item now (current_item s))]\<rparr>);
                         if \<not> ok then Some (clearSequence s2) else Some s2 })"
proof (intro conjI impI)
  assume "timeout (current_item s) = 0"
  then show "effective_timeout (current_item s) = 500"
    by (simp add: effective_timeout_def)
next
  show "unat (timeout (default_timeout (stamp_item now (current_item s))))
        = effective_timeout (current_item s)"
    by (rule default_timeout_effective)
next
  assume "effective_timeout (current_item s) \<le> unat (now - step_start now (current_item s))"
  with assms show "doSequence now s = Some (clearSequence s)"
    by (rule function_step_at_timeout)
next
  show "sequence (clearSequence s) = replicate AC_SEQUENCE_MAX_LEN empty_item"
    by (simp add: clearSequence_def)
next
  show "sequence_current_step (clearSequence s) = 0"
    by (simp add: clearSequence_def)
next
  assume "unat (now - step_start now (current_item s)) < effective_timeout (current_item s)
          \<and> func (current_item s) = Some f"
  with assms show "doSequence now s
        = do { (ok, s2) \<leftarrow> call_func f now
                  (s\<lparr>sequence := (sequence s)[unat (sequence_current_step s)
                         := default_timeout (stamp_item now (current_item s))]\<rparr>);
               if \<not> ok then Some (clearSequence s2) else Some s2 }"
    by (simp add: function_step_before_timeout)
qed

theorem function_step_clears_exactly_at_timeout_witness:
  "hasSequence waiting_since_100
   \<and> unat (sequence_current_step waiting_since_100) < AC_SEQUENCE_MAX_LEN
   \<and> item_type (current_item waiting_since_100) = AC_SIT_FUNC
   \<and> func (current_item waiting_since_100) = Some AirCon_sq_controlSmallStatus
   \<and> timeout (current_item waiting_since_100) = 0
   \<and> effective_timeout (current_item waiting_since_100) = 500
   \<and> unat (600 - step_start 600 (current_item waiting_since_100)) = 500
   \<and> doSequence 600 waiting_since_100 = Some (clearSequence waiting_since_100)
   \<and> unat (599 - step_start 599 (current_item waiting_since_100)) = 499
   \<and> doSequence 599 waiting_since_100
       = Some (waiting_since_100\<lparr>sequence := (sequence waiting_since_100)
                 [1 := (func_item AirCon_sq_controlSmallStatus)\<lparr>item_msec := 100, timeout := 500\<rparr>]\<rparr>)"
proof -
  have st: "sequence_current_step waiting_since_100 = 1"
    by (simp add: waiting_since_100_def waiting_with_ping_def)
  have c: "current_item waiting_since_100
           = (func_item AirCon_sq_controlSmallStatus)\<lparr>item_msec := 100\<rparr>"
    by (simp add: current_item_def waiting_since_100_def waiting_with_ping_def
          startup_loaded_def)
  have h1: "hasSequence waiting_since_100"
    by (simp add: hasSequence_def waiting_since_100_def waiting_with_ping_def
          startup_loaded_def func_item_def)
  have h2: "unat (sequence_current_step waiting_since_100) < AC_SEQUENCE_MAX_LEN"
    by (simp add: st AC_SEQUENCE_MAX_LEN_def)
  have h3: "item_type (current_item waiting_since_100) = AC_SIT_FUNC"
    by (simp add: c func_item_def)
  have f: "func (current_item waiting_since_100) = Some AirCon_sq_controlSmallStatus"
    by (simp add: c func_item_def)
  have t: "timeout (current_item waiting_since_100) = 0"
    by (simp add: c func_item_def empty_item_def)
  have u: "unat (600 - step_start 600 (current_item waiting_since_100)) = 500"
      "unat (599 - step_start 599 (current_item waiting_since_100)) = 499"
    by (simp_all add: c step_start_def)
  have d: "default_timeout (stamp_item 599 (current_item waiting_since_100))
           = (func_item AirCon_sq_controlSmallStatus)\<lparr>item_msec := 100, timeout := 500\<rparr>"
    by (simp add: c func_item_def empty_item_def default_timeout_def stamp_item_def
          AC_SEQUENCE_DEFAULT_TIMEOUT_def)
  have p: "\<And>sq. sq_controlSmallStatus (waiting_since_100\<lparr>sequence := sq\<rparr>)
             = Some (True, waiting_since_100\<lparr>sequence := sq\<rparr>)"
    by (simp add: sq_controlSmallStatus_def sq_controlStatus_def waiting_since_100_def
          waiting_with_ping_def ping_packet_def packet_type_def AC_PTYPE_PING_def)
  note a = function_step_clears_exactly_at_timeout
             [OF h1 h2 h3, of 600 AirCon_sq_controlSmallStatus]
  note b = function_step_clears_exactly_at_timeout
             [OF h1 h2 h3, of 599 AirCon_sq_controlSmallStatus]
  from a t have e: "effective_timeout (current_item waiting_since_100) = 500"
    by simp
  from a e u have x: "doSequence 600 waiting_since_100 = Some (clearSequence waiting_since_100)"
    by simp
  from b e u f have y: "doSequence 599 waiting_since_100
       = Some (waiting_since_100\<lparr>sequence := (sequence waiting_since_100)
                 [1 := (func_item AirCon_sq_controlSmallStatus)\<lparr>item_msec := 100, timeout := 500\<rparr>]\<rparr>)"
    by (simp add: st d p)
  from h1 h2 h3 f t e u x y show ?thesis by simp
qed

text \<open>
  Claim C6. With a ping packet in the incoming packet, each of the three control functions
  returns true and leaves the whole state as it is, the cursor included. So a step of the
  engine on such a function, before its timeout, changes nothing but the start time and
  the timeout written into the step: the sequence is neither advanced nor cleared.
\<close>

theorem confirm_ignores_ping:
  assumes ping: "packet_type (inPacket s) = AC_PTYPE_PING"
      and f: "f = AirCon_sq_controlSmallStatus \<or> f = AirCon_sq_controlBigStatus
              \<or> f = AirCon_sq_controlDoCommand"
  shows "call_func f now s = Some (True, s)
         \<and> (hasSequence s \<and> unat (sequence_current_step s) < AC_SEQUENCE_MAX_LEN
              \<and> item_type (current_item s) = AC_SIT_FUNC \<and> func (current_item s) = Some f
              \<and> unat (now - step_start now (current_item s)) < effective_timeout (current_item s)
            \<longrightarrow> doSequence now s
                  = Some (s\<lparr>sequence := (sequence s)[unat (sequence_current_step s)
                            := default_timeout (stamp_item now (current_item s))]\<rparr>))"
proof -
  have upd: "\<And>sq. packet_type (inPacket (s\<lparr>sequence := sq\<rparr>)) = AC_PTYPE_PING"
    using ping by simp
  have call: "\<And>s. packet_type (inPacket s) = AC_PTYPE_PING \<Longrightarrow> call_func f now s = Some (True, s)"
    using f
    by (auto simp: sq_controlSmallStatus_def sq_controlBigStatus_def sq_controlStatus_def
          sq_controlDoCommand_def)
  show ?thesis
    using call [OF ping] call [OF upd]
    by (simp add: function_step_before_timeout)
qed


theorem confirm_ignores_ping_witness:
  "packet_type (inPacket waiting_with_ping) = AC_PTYPE_PING
   \<and> call_func AirCon_sq_controlSmallStatus 5 waiting_with_ping = Some (True, waiting_with_ping)
   \<and> hasSequence waiting_with_ping
   \<and> sequence_current_step waiting_with_ping = 1
   \<and> func (current_item waiting_with_ping) = Some AirCon_sq_controlSmallStatus
   \<and> doSequence 5 waiting_with_ping
       = Some (waiting_with_ping\<lparr>sequence := (sequence waiting_with_ping)
                 [1 := (func_item AirCon_sq_controlSmallStatus)\<lparr>item_msec := 5, timeout := 500\<rparr>]\<rparr>)"
proof -
  have st: "sequence_current_step waiting_with_ping = 1"
    by (simp add: waiting_with_ping_def)
  have c: "current_item waiting_with_ping = func_item AirCon_sq_controlSmallStatus"
    by (simp add: current_item_def waiting_with_ping_def startup_loaded_def)
  have h1: "packet_type (inPacket waiting_with_ping) = AC_PTYPE_PING"
    by (simp add: waiting_with_ping_def ping_packet_def packet_type_def AC_PTYPE_PING_def)
  have h2: "hasSequence waiting_with_ping"
    by (simp add: hasSequence_def waiting_with_ping_def startup_loaded_def func_item_def)
  have h3: "unat (sequence_current_step waiting_with_ping) < AC_SEQUENCE_MAX_LEN"
    by (simp add: st AC_SEQUENCE_MAX_LEN_def)
  have h4: "item_type (current_item waiting_with_ping) = AC_SIT_FUNC"
    by (simp add: c func_item_def)
  have h5: "func (current_item waiting_with_ping) = Some AirCon_sq_controlSmallStatus"
    by (simp add: c func_item_def)
  have h6: "unat (5 - step_start 5 (current_item waiting_with_ping))
            < effective_timeout (current_item waiting_with_ping)"
    by (simp add: c func_item_def empty_item_def step_start_def effective_timeout_def)
  have d: "default_timeout (stamp_item 5 (current_item waiting_with_ping))
           = (func_item AirCon_sq_controlSmallStatus)\<lparr>item_msec := 5, timeout := 500\<rparr>"
    by (simp add: c func_item_def empty_item_def default_timeout_def stamp_item_def
          AC_SEQUENCE_DEFAULT_TIMEOUT_def)
  from confirm_ignores_ping [OF h1 disjI1 [OF refl], of 5]
  show ?thesis using h1 h2 h3 h4 h5 h6 by (simp add: st d)
qed

subsection \<open>Receiving a packet\<close>

lemma load_byte_msec [simp]: "msec (load_byte b p) = msec p"
  by (simp add: load_byte_def Let_def)

lemma load_byte_bytesLoaded [simp]: "bytesLoaded (load_byte b p) = bytesLoaded p + 1"
  by (simp add: load_byte_def Let_def)

lemma receiving_loop_msec:
  "receiving_loop rx p = (e, rest, p') \<Longrightarrow> msec p' = msec p"
  by (induction rx arbitrary: p) (auto simp: Let_def split: if_splits)

lemma receiving_loop_overflow:
  "rx \<noteq> [] \<Longrightarrow> unat (bytesLoaded p) \<ge> AC_BUFFER_SIZE \<Longrightarrow> receiving_loop rx p = (Rx_overflow, rx, p)"
  by (cases rx) auto

lemma unat_bytesLoaded_Suc:
  "unat (n :: 8 word) < AC_BUFFER_SIZE \<Longrightarrow> unat (n + 1) = unat n + 1"
  by (simp add: unat_word_ariths AC_BUFFER_SIZE_def)

lemma receiving_loop_loaded:
  "receiving_loop rx p = (Rx_loaded, rest, p')
   \<Longrightarrow> packet_loaded p' \<and> unat (bytesLoaded p') \<le> AC_BUFFER_SIZE"
proof (induction rx arbitrary: p)
  case Nil
  then show ?case by simp
next
  case (Cons b bs)
  show ?case
  proof (cases "packet_loaded (load_byte b p)")
    case True
    with Cons.prems show ?thesis
      by (auto simp: Let_def unat_bytesLoaded_Suc split: if_splits)
  next
    case False
    with Cons.prems have "receiving_loop bs (load_byte b p) = (Rx_loaded, rest, p')"
      by (auto simp: Let_def split: if_splits)
    then show ?thesis by (rule Cons.IH)
  qed
qed



lemma setStateMachineState_eq: "setStateMachineState st s = s\<lparr>ac_state := st\<rparr>"
  by (simp add: setStateMachineState_def)

text \<open>
  Claim C9, as the code has it. A receiving step discards the incoming packet and returns
  to idle when it meets a waiting byte with the buffer already holding 34 bytes (at its
  start, or after it has loaded bytes without completing a packet), and when it has read
  all waiting bytes without completing a packet and 150 time units or more have passed
  since the packet was started.
\<close>

theorem receiving_discards_on_overflow_or_timeout:
  "(serial_rx s \<noteq> [] \<and> unat (bytesLoaded (inPacket s)) \<ge> AC_BUFFER_SIZE
      \<longrightarrow> discarded (doReceivingPacketState now s))
   \<and> (fst (receiving_loop (serial_rx s) (inPacket s)) = Rx_overflow
      \<longrightarrow> discarded (doReceivingPacketState now s))
   \<and> (fst (receiving_loop (serial_rx s) (inPacket s)) = Rx_drained
        \<and> unat (now - msec (inPacket s)) \<ge> AC_PACKET_TIMEOUT
      \<longrightarrow> discarded (doReceivingPacketState now s))
   \<and> (serial_rx s = [] \<and> unat (now - msec (inPacket s)) \<ge> AC_PACKET_TIMEOUT
      \<longrightarrow> discarded (doReceivingPacketState now s))"
proof -
  obtain e rest p where r: "receiving_loop (serial_rx s) (inPacket s) = (e, rest, p)"
    by (cases "receiving_loop (serial_rx s) (inPacket s)") auto
  have m: "msec p = msec (inPacket s)"
    using receiving_loop_msec [OF r] .
  have ov: "e = Rx_overflow \<Longrightarrow> discarded (doReceivingPacketState now s)"
    using r by (simp add: doReceivingPacketState_def discarded_def setStateMachineState_eq
                  clearInPacket_def)
  have dr: "e = Rx_drained \<Longrightarrow> unat (now - msec (inPacket s)) \<ge> AC_PACKET_TIMEOUT
            \<Longrightarrow> discarded (doReceivingPacketState now s)"
    using r m by (simp add: doReceivingPacketState_def discarded_def setStateMachineState_eq
                    clearInPacket_def)
  have a: "serial_rx s \<noteq> [] \<Longrightarrow> unat (bytesLoaded (inPacket s)) \<ge> AC_BUFFER_SIZE
           \<Longrightarrow> e = Rx_overflow"
    using r receiving_loop_overflow [of "serial_rx s" "inPacket s"] by simp
  have d: "serial_rx s = [] \<Longrightarrow> e = Rx_drained"
    using r by simp
  show ?thesis
    using ov dr a d r by auto
qed

theorem receiving_discards_on_overflow_or_timeout_witness:
  "serial_rx receiving_full \<noteq> []
   \<and> unat (bytesLoaded (inPacket receiving_full)) \<ge> AC_BUFFER_SIZE
   \<and> discarded (doReceivingPacketState 10 receiving_full)
   \<and> serial_rx (receiving_full\<lparr>serial_rx := []\<rparr>) = []
   \<and> unat (151 - msec (inPacket (receiving_full\<lparr>serial_rx := []\<rparr>))) \<ge> AC_PACKET_TIMEOUT
   \<and> discarded (doReceivingPacketState 151 (receiving_full\<lparr>serial_rx := []\<rparr>))"
proof -
  have h1: "serial_rx receiving_full \<noteq> []"
    by (simp add: receiving_full_def)
  have h2: "unat (bytesLoaded (inPacket receiving_full)) \<ge> AC_BUFFER_SIZE"
    by (simp add: receiving_full_def AC_BUFFER_SIZE_def)
  have h3: "serial_rx (receiving_full\<lparr>serial_rx := []\<rparr>) = []"
    by simp
  have h4: "unat (151 - msec (inPacket (receiving_full\<lparr>serial_rx := []\<rparr>))) \<ge> AC_PACKET_TIMEOUT"
    by (simp add: receiving_full_def AC_PACKET_TIMEOUT_def)
  from receiving_discards_on_overflow_or_timeout [of receiving_full 10]
       receiving_discards_on_overflow_or_timeout [of "receiving_full\<lparr>serial_rx := []\<rparr>" 151]
  show ?thesis using h1 h2 h3 h4 by blast
qed

text \<open>
  Claim C9 as stated has the packet discarded as soon as the buffer holds 34 bytes of an
  incomplete packet. A step that loads the 34th byte and finds no further byte waiting,
  before the timeout, ends in the receiving state with the 34 bytes kept.
\<close>

theorem full_buffer_kept_counterexample:
  "ac_state (doReceivingPacketState 10 receiving_34) = ACSM_RECEIVING_PACKET
   \<and> bytesLoaded (inPacket (doReceivingPacketState 10 receiving_34)) = 34
   \<and> body_length (inPacket (doReceivingPacketState 10 receiving_34)) = 30
   \<and> serial_rx (doReceivingPacketState 10 receiving_34) = []"
  by (simp add: doReceivingPacketState_def receiving_34_def initAC_def clearSequence_def
        clearOutPacket_def clearPacket_def clearBuffer_def load_byte_def packet_loaded_def
        body_length_def AC_BUFFER_SIZE_def AC_HEADER_SIZE_def AC_PACKET_TIMEOUT_def Let_def)


subsection \<open>Entering the parsing state\<close>

lemma receiving_inv_start: "receiving_inv (clearPacket\<lparr>msec := now\<rparr>)"
  by (simp add: receiving_inv_def clearPacket_def clearBuffer_def AC_BUFFER_SIZE_def
        AC_HEADER_SIZE_def)

lemma load_byte_inv:
  assumes inv: "receiving_inv p" and room: "unat (bytesLoaded p) < AC_BUFFER_SIZE"
  shows "receiving_inv (load_byte b p)"
proof -
  have n: "unat (bytesLoaded p + 1) = unat (bytesLoaded p) + 1"
    using room by (rule unat_bytesLoaded_Suc)
  consider (before) "unat (bytesLoaded p) + 1 < AC_HEADER_SIZE"
    | (header) "unat (bytesLoaded p) + 1 = AC_HEADER_SIZE"
    | (after) "AC_HEADER_SIZE \<le> unat (bytesLoaded p)"
    by linarith
  then show ?thesis
  proof cases
    case before
    with inv n show ?thesis
      by (simp add: receiving_inv_def load_byte_def Let_def body_length_def)
  next
    case header
    with inv n show ?thesis
      by (simp add: receiving_inv_def load_byte_def Let_def body_length_def)
  next
    case after
    with inv n show ?thesis
      by (simp add: receiving_inv_def load_byte_def Let_def body_length_def AC_HEADER_SIZE_def)
  qed
qed

lemma receiving_loop_inv:
  "receiving_inv p \<Longrightarrow> receiving_loop rx p = (e, rest, p') \<Longrightarrow> receiving_inv p'"
proof (induction rx arbitrary: p)
  case Nil
  then show ?case by simp
next
  case (Cons b bs)
  show ?case
  proof (cases "unat (bytesLoaded p) < AC_BUFFER_SIZE")
    case False
    with Cons.prems show ?thesis by simp
  next
    case True
    then have i: "receiving_inv (load_byte b p)"
      using Cons.prems(1) by (simp add: load_byte_inv)
    show ?thesis
    proof (cases "packet_loaded (load_byte b p)")
      case True
      with Cons.prems \<open>unat (bytesLoaded p) < AC_BUFFER_SIZE\<close> i show ?thesis
        by (simp add: Let_def)
    next
      case False
      with Cons.prems \<open>unat (bytesLoaded p) < AC_BUFFER_SIZE\<close>
      have "receiving_loop bs (load_byte b p) = (e, rest, p')"
        by (simp add: Let_def)
      with i show ?thesis by (rule Cons.IH)
    qed
  qed
qed

text \<open>
  The part of claim C10 that holds. When a receiving step enters the parsing state, the
  incoming packet holds exactly its header, its body and two checksum bytes, the body
  length is at most 24, and the pointers are as the header gives them if they were so
  before the step; then \<^verbatim>\<open>_checkCRC\<close> reads inside the buffer.
\<close>

lemma parsing_entered_from_receiving:
  assumes "ac_state s = ACSM_RECEIVING_PACKET"
      and "ac_state (doReceivingPacketState now s) = ACSM_PARSING_PACKET"
  shows "packet_loaded (inPacket (doReceivingPacketState now s))
         \<and> unat (body_length (inPacket (doReceivingPacketState now s))) \<le> AC_MAX_BODY_SIZE
         \<and> (receiving_inv (inPacket s) \<longrightarrow> receiving_inv (inPacket (doReceivingPacketState now s)))"
proof -
  obtain e rest p where r: "receiving_loop (serial_rx s) (inPacket s) = (e, rest, p)"
    by (cases "receiving_loop (serial_rx s) (inPacket s)") auto
  have e: "e = Rx_loaded"
    using assms r
    by (cases e) (auto simp: doReceivingPacketState_def setStateMachineState_eq clearInPacket_def
                    Let_def split: if_splits)
  have p: "inPacket (doReceivingPacketState now s) = p"
    using r e by (simp add: doReceivingPacketState_def setStateMachineState_eq)
  have l: "packet_loaded p \<and> unat (bytesLoaded p) \<le> AC_BUFFER_SIZE"
    using receiving_loop_loaded r e by simp
  then have "unat (body_length p) \<le> AC_MAX_BODY_SIZE"
    by (simp add: packet_loaded_def AC_BUFFER_SIZE_def AC_HEADER_SIZE_def AC_MAX_BODY_SIZE_def)
  with l p receiving_loop_inv [OF _ r] show ?thesis by simp
qed

lemma checkCRC_in_buffer:
  assumes "receiving_inv p" and "packet_loaded p" and "unat (body_length p) \<le> AC_MAX_BODY_SIZE"
  shows "\<exists>ok. checkCRC p = Some (ok, p)"
proof -
  have b: "\<not> unat (bytesLoaded p) < AC_HEADER_SIZE"
    using assms(2) by (simp add: packet_loaded_def)
  have c: "crc p = Some (AC_HEADER_SIZE + unat (body_length p))"
    using assms(1) b by (simp add: receiving_inv_def)
  have u: "unat (8 + body_length p) = 8 + unat (body_length p)"
    using assms(3) by (simp add: unat_header_plus AC_MAX_BODY_SIZE_def)
  obtain v where v: "CRC16 (data p) (8 + body_length p) = Some v"
    using assms(3) u by (simp add: CRC16_def Let_def AC_BUFFER_SIZE_def AC_MAX_BODY_SIZE_def)
  have pk: "p\<lparr>crc := Some (AC_HEADER_SIZE + unat (body_length p))\<rparr> = p"
    using c by simp
  show ?thesis
    using b c v assms(3) pk
    by (auto simp: checkCRC_def crc_ptr_def rd_def AC_BUFFER_SIZE_def AC_HEADER_SIZE_def
          AC_MAX_BODY_SIZE_def)
qed

lemma take_header:
  "8 \<le> length d \<Longrightarrow> take 8 d = [d ! 0, d ! 1, d ! 2, d ! 3, d ! 4, d ! 5, d ! 6, d ! 7]"
proof (rule nth_equalityI)
  show "8 \<le> length d \<Longrightarrow> length (take 8 d) = length [d ! 0, d ! 1, d ! 2, d ! 3, d ! 4, d ! 5, d ! 6, d ! 7]"
    by simp
next
  fix i
  assume "8 \<le> length d" and "i < length (take 8 d)"
  then show "take 8 d ! i = [d ! 0, d ! 1, d ! 2, d ! 3, d ! 4, d ! 5, d ! 6, d ! 7] ! i"
    by (auto simp: less_Suc_eq eval_nat_numeral)
qed

text \<open>
  Claim C10 says that with these lengths every access of the body decoding lies inside the
  packet buffer. For an info packet with an empty body it does not. The receiver sets
  \<^verbatim>\<open>_inPacket.body\<close> only when the body length is positive, so it stays null; the packet
  enters the parsing state, its checksum is correct, and the dispatch on
  \<^verbatim>\<open>_inPacket.body[1]\<close> reads through the null pointer.
\<close>

theorem empty_info_packet_null_body:
  "ac_state (doReceivingPacketState 10 receiving_empty_info) = ACSM_PARSING_PACKET
   \<and> bytesLoaded (inPacket (doReceivingPacketState 10 receiving_empty_info)) = 10
   \<and> body (inPacket (doReceivingPacketState 10 receiving_empty_info)) = None
   \<and> map_option fst (checkCRC (inPacket (doReceivingPacketState 10 receiving_empty_info))) = Some True
   \<and> doParsingPacket 11 (doReceivingPacketState 10 receiving_empty_info) = None"
proof -
  let ?p = "inPacket (doReceivingPacketState 10 receiving_empty_info)"
  have st: "ac_state (doReceivingPacketState 10 receiving_empty_info) = ACSM_PARSING_PACKET"
    and bl: "bytesLoaded ?p = 10" and bd: "body ?p = None" and cp: "crc ?p = Some 8"
    and ln: "length (data ?p) = 34"
    and d: "data ?p ! 0 = 0xBB" "data ?p ! 1 = 0" "data ?p ! 2 = 7" "data ?p ! 3 = 0"
           "data ?p ! 4 = 0" "data ?p ! 5 = 0" "data ?p ! 6 = 0" "data ?p ! 7 = 0"
    and c0: "data ?p ! 8 = 0x3D" and c1: "data ?p ! 9 = 0xFF"
    by (simp_all add: doReceivingPacketState_def receiving_empty_info_def initAC_def
          clearSequence_def clearOutPacket_def clearPacket_def clearBuffer_def load_byte_def
          packet_loaded_def body_length_def AC_BUFFER_SIZE_def AC_HEADER_SIZE_def
          setStateMachineState_eq Let_def)
  have len: "body_length ?p = 0" and pt: "packet_type ?p = AC_PTYPE_INFO"
    using d by (simp_all add: body_length_def packet_type_def AC_PTYPE_INFO_def)
  have crc16: "CRC16 (data ?p) 8 = Some 0x3DFF"
    using CRC16_spec [of 8 "data ?p"] ln d
    by (simp add: take_header AC_BUFFER_SIZE_def checksum_spec_def)
  have chk: "checkCRC ?p = Some (True, ?p)"
    using cp by (simp add: checkCRC_def bl len crc16 crc_ptr_def rd_def c0 c1 crc_byte_def
                   AC_HEADER_SIZE_def AC_BUFFER_SIZE_def)
  have "doParsingPacket 11 (doReceivingPacketState 10 receiving_empty_info) = None"
    by (simp add: doParsingPacket_def chk dispatch_packet_def parse_info_def rd_def pt bd
          AC_PTYPE_PING_def AC_PTYPE_CMD_def AC_PTYPE_INFO_def)
  with st bl bd chk show ?thesis by simp
qed

subsection \<open>What a step of the sequence engine can change\<close>

lemma clamp_temp_idem: "clamp_temp (clamp_temp c) = clamp_temp c"
  by (simp add: clamp_temp_def Let_def AC_MIN_TEMPERATURE_def AC_MAX_TEMPERATURE_def)

lemma seq_frame_refl [simp]: "seq_frame s s"
  by (simp add: seq_frame_def)

lemma seq_frame_trans: "seq_frame s s1 \<Longrightarrow> seq_frame s1 s2 \<Longrightarrow> seq_frame s s2"
  by (auto simp: seq_frame_def clamp_temp_idem)

lemma seq_frame_upd [simp]:
  "seq_frame s (s'\<lparr>sequence := sq\<rparr>) = seq_frame s s'"
  "seq_frame s (s'\<lparr>sequence_current_step := st\<rparr>) = seq_frame s s'"
  "seq_frame s (s'\<lparr>outPacket := p\<rparr>) = seq_frame s s'"
  "seq_frame (s\<lparr>sequence := sq\<rparr>) s' = seq_frame s s'"
  "seq_frame (s\<lparr>sequence_current_step := st\<rparr>) s' = seq_frame s s'"
  "seq_frame (s\<lparr>outPacket := p\<rparr>) s' = seq_frame s s'"
  by (simp_all add: seq_frame_def)

lemma seq_frame_clamp [simp]:
  "seq_frame s (s\<lparr>current_ac_state := clamp_temp (current_ac_state s)\<rparr>)"
  by (simp add: seq_frame_def)

lemma seq_frame_clearSequence [simp]: "seq_frame s (clearSequence s') = seq_frame s s'"
  by (simp add: clearSequence_def)

lemma seq_frame_next_step [simp]: "seq_frame s (next_step s') = seq_frame s s'"
  by (simp add: next_step_def)

lemma seq_put_frame: "seq_put i it s = Some s' \<Longrightarrow> seq_frame s s'"
  by (auto simp: seq_put_def split: if_splits)

lemma put_pack_frame: "put_pack pr p s = Some s' \<Longrightarrow> seq_frame s s'"
  by (cases pr) (auto simp: bind_eq_Some_conv dest: seq_put_frame)

lemma put_pack_current: "put_pack pr p s = Some s' \<Longrightarrow> current_ac_state s' = current_ac_state s"
  by (cases pr) (auto simp: bind_eq_Some_conv seq_put_def split: if_splits)

lemma nth_update_packet_cmd: "cmd (xs[i := (xs ! i)\<lparr>packet := p\<rparr>] ! j) = cmd (xs ! j)"
  by (cases "i < length xs") (auto simp: nth_list_update list_update_beyond)

lemma put_pack_cmd: "put_pack pr p s = Some s' \<Longrightarrow> get_cmd cr s' = get_cmd cr s"
  by (cases pr; cases cr)
     (auto simp: bind_eq_Some_conv seq_put_def seq_get_def nth_update_packet_cmd split: if_splits)

lemma fill_from_clamps: "fill_from now pack c = Some (p, c') \<Longrightarrow> c' = clamp_temp c"
  by (auto simp: fill_from_def Let_def bind_eq_Some_conv)

lemma put_cmd_frame:
  "put_cmd cr (clamp_temp c) s = Some s' \<Longrightarrow> get_cmd cr s = Some c \<Longrightarrow> seq_frame s s'"
  by (cases cr) (auto simp: bind_eq_Some_conv dest: seq_put_frame)

lemma fill_from_ref_frame:
  assumes "fill_from_ref now pr cr s = Some s'"
  shows "seq_frame s s'"
proof -
  from assms obtain pack c p c' s1 where
      c: "get_cmd cr s = Some c" and f: "fill_from now pack c = Some (p, c')"
      and s1: "put_pack pr p s = Some s1" and s': "put_cmd cr c' s1 = Some s'"
    by (auto simp: fill_from_ref_def bind_eq_Some_conv)
  have c': "c' = clamp_temp c" using f by (rule fill_from_clamps)
  have "get_cmd cr s1 = Some c" using put_pack_cmd [OF s1] c by simp
  with s' c' have "seq_frame s1 s'" by (auto dest: put_cmd_frame)
  with put_pack_frame [OF s1] show ?thesis by (rule seq_frame_trans)
qed

lemma fillSetCommand_frame:
  assumes "fillSetCommand now clr pr cr s = Some s'"
  shows "seq_frame s s'"
proof -
  from assms obtain s1 s2 where
      s1: "(if clr then put_pack pr clearPacket s else Some s) = Some s1"
      and s2: "(if cr \<noteq> Ref_current_ac_state then fill_from_ref now pr Ref_current_ac_state s1
                else Some s1) = Some s2"
      and s': "(if cr = Ref_nullptr then Some s2 else fill_from_ref now pr cr s2) = Some s'"
    by (auto simp: fillSetCommand_def bind_eq_Some_conv)
  have a: "seq_frame s s1" using s1 by (auto split: if_splits dest: put_pack_frame)
  have b: "seq_frame s1 s2" using s2 by (auto split: if_splits dest: fill_from_ref_frame)
  have c: "seq_frame s2 s'" using s' by (auto split: if_splits dest: fill_from_ref_frame)
  from a b c show ?thesis by (blast intro: seq_frame_trans)
qed

lemma sq_requestStatus_frame:
  "sq_requestStatus fill now s = Some (r, s') \<Longrightarrow> seq_frame s s'"
  by (auto simp: sq_requestStatus_def bind_eq_Some_conv split: if_splits dest!: seq_put_frame)

lemma store_inPacket_frame: "store_inPacket s = Some s' \<Longrightarrow> seq_frame s s'"
  by (auto simp: store_inPacket_def bind_eq_Some_conv dest: seq_put_frame)

lemma sq_controlStatus_frame:
  "sq_controlStatus len code s = Some (r, s') \<Longrightarrow> seq_frame s s'"
  by (auto simp: sq_controlStatus_def bind_eq_Some_conv split: if_splits dest: store_inPacket_frame)

lemma set_item_packet_type_frame: "set_item_packet_type t s = Some s' \<Longrightarrow> seq_frame s s'"
  by (auto simp: set_item_packet_type_def bind_eq_Some_conv dest: seq_put_frame)

lemma sq_requestDoCommand_frame:
  assumes "sq_requestDoCommand now s = Some (r, s')"
  shows "seq_frame s s'"
proof (cases "bytesLoaded (outPacket s) > 0")
  case True
  with assms show ?thesis by (simp add: sq_requestDoCommand_def)
next
  case False
  with assms obtain s1 s2 s3 where
      "fillSetCommand now True Ref_outPacket (Ref_sequence_cmd (unat (sequence_current_step s))) s
         = Some s1"
      "fillSetCommand now True (Ref_sequence_packet (unat (sequence_current_step s)))
         (Ref_sequence_cmd (unat (sequence_current_step s))) s1 = Some s2"
      "set_item_packet_type AC_SPT_SENT_PACKET s2 = Some s3" "s' = next_step s3"
    by (auto simp: sq_requestDoCommand_def bind_eq_Some_conv)
  then show ?thesis
    by (auto dest!: fillSetCommand_frame set_item_packet_type_frame intro: seq_frame_trans)
qed

lemma sq_controlDoCommand_frame:
  "sq_controlDoCommand s = Some (r, s') \<Longrightarrow> seq_frame s s'"
  by (auto simp: sq_controlDoCommand_def bind_eq_Some_conv split: if_splits
           dest: store_inPacket_frame)

lemma call_func_frame: "call_func f now s = Some (r, s') \<Longrightarrow> seq_frame s s'"
  by (cases f)
     (auto simp: sq_requestSmallStatus_def sq_requestBigStatus_def sq_controlSmallStatus_def
        sq_controlBigStatus_def
        dest: sq_requestStatus_frame sq_controlStatus_frame sq_requestDoCommand_frame
          sq_controlDoCommand_frame)

lemma doSequence_frame:
  assumes "doSequence now s = Some s'"
  shows "seq_frame s s'"
proof -
  have call: "\<And>f sq r s2. call_func f now (s\<lparr>sequence := sq\<rparr>) = Some (r, s2) \<Longrightarrow> seq_frame s s2"
  proof -
    fix f sq r s2
    assume "call_func f now (s\<lparr>sequence := sq\<rparr>) = Some (r, s2)"
    then have "seq_frame (s\<lparr>sequence := sq\<rparr>) s2" by (rule call_func_frame)
    moreover have "seq_frame s (s\<lparr>sequence := sq\<rparr>)" by simp
    ultimately show "seq_frame s s2" by (blast intro: seq_frame_trans)
  qed
  from assms show ?thesis
    by (auto simp: doSequence_def Let_def bind_eq_Some_conv
             split: if_splits sequence_item_type_t.splits option.splits dest: call)
qed

subsection \<open>Parsing a packet\<close>

lemma checkCRC_result:
  "checkCRC p = Some (ok, p') \<Longrightarrow> p' = p \<or> p' = p\<lparr>crc := crc_ptr p\<rparr>"
  by (auto simp: checkCRC_def bind_eq_Some_conv split: if_splits)

lemma checkCRC_packet_type:
  "checkCRC p = Some (ok, p') \<Longrightarrow> packet_type p' = packet_type p"
  by (auto dest!: checkCRC_result simp: packet_type_def)

lemma checkCRC_body:
  "checkCRC p = Some (ok, p') \<Longrightarrow> body p' = body p \<and> data p' = data p"
  by (auto dest!: checkCRC_result)

lemma set_func_frame: "set_func i f s = Some s' \<Longrightarrow> seq_frame s s'"
  by (auto simp: set_func_def bind_eq_Some_conv dest: seq_put_frame)

lemma startupSequence_frame: "startupSequence s = Some (r, s') \<Longrightarrow> seq_frame s s'"
proof (cases "hasSequence s")
  case True
  then show "startupSequence s = Some (r, s') \<Longrightarrow> seq_frame s s'"
    by (simp add: startupSequence_def)
next
  case False
  assume "startupSequence s = Some (r, s')"
  with False obtain s0 s1 s2 where
      "set_func 0 AirCon_sq_requestSmallStatus (clearSequence s) = Some s0"
      "set_func 1 AirCon_sq_controlSmallStatus s0 = Some s1"
      "set_func 2 AirCon_sq_requestBigStatus s1 = Some s2"
      "set_func 3 AirCon_sq_controlBigStatus s2 = Some s'"
    by (auto simp: startupSequence_def bind_eq_Some_conv)
  then have "seq_frame (clearSequence s) s0" "seq_frame s0 s1" "seq_frame s1 s2" "seq_frame s2 s'"
    by (auto dest: set_func_frame)
  moreover have "seq_frame s (clearSequence s)" by simp
  ultimately show "seq_frame s s'" by (blast intro: seq_frame_trans)
qed

lemma seq_frame_ac_state: "seq_frame s s' \<Longrightarrow> ac_state s' = ac_state s"
  by (simp add: seq_frame_def)

lemma ping_answer_state:
  "ping_answer now s = Some s' \<Longrightarrow> ac_state s' = ACSM_SENDING_PACKET"
  by (auto simp: ping_answer_def Let_def bind_eq_Some_conv setStateMachineState_eq
           split: if_splits)

lemma parse_info_state: "parse_info s = Some s' \<Longrightarrow> ac_state s' = ACSM_IDLE"
  by (auto simp: parse_info_def bind_eq_Some_conv setStateMachineState_eq)

lemma dispatch_packet_state:
  "dispatch_packet now s = Some s'
   \<Longrightarrow> ac_state s' = (if packet_type (inPacket s) = AC_PTYPE_PING
                     then ACSM_SENDING_PACKET else ACSM_IDLE)"
  by (auto simp: dispatch_packet_def setStateMachineState_eq clearInPacket_def
           split: if_splits dest: ping_answer_state parse_info_state)

lemma doParsingPacket_ac_state:
  assumes "doParsingPacket now s = Some s'"
  shows "ac_state s' = (if checksum_ok (inPacket s) \<and> packet_type (inPacket s) = AC_PTYPE_PING
                        then ACSM_SENDING_PACKET else ACSM_IDLE)"
proof -
  from assms obtain ok p where c: "checkCRC (inPacket s) = Some (ok, p)"
    by (auto simp: doParsingPacket_def bind_eq_Some_conv)
  have k: "checksum_ok (inPacket s) = ok"
    using c by (simp add: checksum_ok_def)
  show ?thesis
  proof (cases ok)
    case False
    with assms c k show ?thesis
      by (auto simp: doParsingPacket_def setStateMachineState_eq clearInPacket_def)
  next
    case True
    with assms c obtain s1 s2 where
        d: "dispatch_packet now (s\<lparr>inPacket := p\<rparr>) = Some s1"
        and q: "(if hasSequence s1 then doSequence now s1 else Some s1) = Some s2"
        and e: "s' = clearInPacket s2"
      by (auto simp: doParsingPacket_def bind_eq_Some_conv)
    have "ac_state s2 = ac_state s1"
      using q by (auto split: if_splits dest!: doSequence_frame seq_frame_ac_state)
    with e have "ac_state s' = ac_state s1"
      by (simp add: clearInPacket_def)
    with dispatch_packet_state [OF d] checkCRC_packet_type [OF c] k True
    show ?thesis by simp
  qed
qed

lemma ping_packet_checksum: "checkCRC ping_packet = Some (True, ping_packet)"
proof -
  have "CRC16 (data ping_packet) 8 = Some 0x43FF"
    using CRC16_spec [of 8 "data ping_packet"]
    by (simp add: ping_packet_def take_header AC_BUFFER_SIZE_def checksum_spec_def)
  then show ?thesis
    by (simp add: checkCRC_def ping_packet_def body_length_def crc_ptr_def rd_def crc_byte_def
          AC_HEADER_SIZE_def AC_BUFFER_SIZE_def)
qed


lemma ping_answer_Some:
  assumes "startupSequenceComlete s"
  shows "\<exists>s'. ping_answer now s = Some s' \<and> sequence s' = sequence s"
proof -
  let ?out = "clearPacket\<lparr>data := clearBuffer[0 := AC_PACKET_START_BYTE, 3 := AC_PACKET_ANSWER],
                 msec := now, body := Some AC_HEADER_SIZE, crc := Some (AC_HEADER_SIZE + 8),
                 data := clearBuffer[0 := AC_PACKET_START_BYTE, 3 := AC_PACKET_ANSWER,
                           2 := AC_PTYPE_PING, 4 := 0x01, 6 := 8, 8 := 0x1C, 9 := 0x27]\<rparr>"
  have "\<exists>p. setCRC16 ?out = Some p"
    using setCRC16_eq [of ?out]
    by (simp add: clearBuffer_def body_length_def AC_BUFFER_SIZE_def AC_HEADER_SIZE_def
          AC_MAX_BODY_SIZE_def)
  then show ?thesis
    using assms
    by (auto simp: ping_answer_def clearOutPacket_def Let_def setStateMachineState_eq)
qed

lemma parse_small_Some:
  "\<exists>r. parse_small d (Some AC_HEADER_SIZE) st = Some r"
  by (simp add: parse_small_def rd_def AC_HEADER_SIZE_def AC_BUFFER_SIZE_def)

lemma parse_big_Some:
  "\<exists>r. parse_big d (Some AC_HEADER_SIZE) st = Some r"
  by (simp add: parse_big_def rd_def AC_HEADER_SIZE_def AC_BUFFER_SIZE_def Let_def)

lemma notify_sequence [simp]: "sequence (notify r s) = sequence s"
  by (simp add: notify_def stateChanged_def Let_def)

lemma parse_info_Some:
  assumes "body (inPacket s) = Some AC_HEADER_SIZE"
  shows "\<exists>s'. parse_info s = Some s' \<and> sequence s' = sequence s"
proof -
  obtain r1 where r1: "parse_small (data (inPacket s)) (Some AC_HEADER_SIZE) (current_ac_state s) = Some r1"
    using parse_small_Some by blast
  obtain r2 where r2: "parse_big (data (inPacket s)) (Some AC_HEADER_SIZE) (current_ac_state s) = Some r2"
    using parse_big_Some by blast
  have "rd (data (inPacket s)) (Some AC_HEADER_SIZE) 1 = Some (data (inPacket s) ! 9)"
    by (simp add: rd_def AC_HEADER_SIZE_def AC_BUFFER_SIZE_def)
  then show ?thesis
    using assms r1 r2
    by (simp add: parse_info_def setStateMachineState_eq)
qed

lemma dispatch_packet_Some:
  assumes "startupSequenceComlete s \<or> packet_type (inPacket s) \<noteq> AC_PTYPE_PING"
      and "packet_type (inPacket s) = AC_PTYPE_INFO \<longrightarrow> body (inPacket s) = Some AC_HEADER_SIZE"
  shows "\<exists>s'. dispatch_packet now s = Some s' \<and> sequence s' = sequence s"
  using assms ping_answer_Some [of s now] parse_info_Some [of s]
  by (auto simp: dispatch_packet_def setStateMachineState_eq clearInPacket_def)

text \<open>
  A parsing step completes when no sequence is loaded, the startup sequence has been run
  or the packet is not a ping packet, and an info packet has its body pointer set.
\<close>

lemma doParsingPacket_completes:
  assumes c: "checkCRC (inPacket s) = Some (ok, p)"
      and n: "\<not> hasSequence s"
      and u: "startupSequenceComlete s \<or> packet_type (inPacket s) \<noteq> AC_PTYPE_PING"
      and b: "packet_type (inPacket s) = AC_PTYPE_INFO \<longrightarrow> body (inPacket s) = Some AC_HEADER_SIZE"
  shows "\<exists>s'. doParsingPacket now s = Some s'"
proof (cases ok)
  case False
  with c show ?thesis by (simp add: doParsingPacket_def)
next
  case True
  have "\<exists>s1. dispatch_packet now (s\<lparr>inPacket := p\<rparr>) = Some s1
             \<and> sequence s1 = sequence (s\<lparr>inPacket := p\<rparr>)"
    using u b checkCRC_packet_type [OF c] checkCRC_body [OF c]
    by (intro dispatch_packet_Some) auto
  then obtain s1 where d: "dispatch_packet now (s\<lparr>inPacket := p\<rparr>) = Some s1"
      and q: "sequence s1 = sequence s" by auto
  have "\<not> hasSequence s1" using n q by (simp add: hasSequence_def)
  with c True d show ?thesis by (simp add: doParsingPacket_def)
qed


lemma damaged_packet_checksum:
  "checkCRC (ping_packet\<lparr>data := (data ping_packet)[9 := 0]\<rparr>)
   = Some (False, ping_packet\<lparr>data := (data ping_packet)[9 := 0]\<rparr>)"
proof -
  have "CRC16 ((data ping_packet)[9 := 0]) 8 = Some 0x43FF"
    using CRC16_spec [of 8 "(data ping_packet)[9 := 0]"]
    by (simp add: ping_packet_def take_header AC_BUFFER_SIZE_def checksum_spec_def)
  then show ?thesis
    by (simp add: checkCRC_def ping_packet_def body_length_def crc_ptr_def rd_def crc_byte_def
          AC_HEADER_SIZE_def AC_BUFFER_SIZE_def)
qed

lemma parsing_ping_facts:
  "inPacket parsing_ping = ping_packet" "\<not> hasSequence parsing_ping"
  "startupSequenceComlete parsing_ping" "packet_type ping_packet = AC_PTYPE_PING"
  "ac_state parsing_ping = ACSM_PARSING_PACKET"
  "AC_PTYPE_PING \<noteq> AC_PTYPE_INFO"
  by (simp_all add: parsing_ping_def initAC_def clearSequence_def clearOutPacket_def
        hasSequence_def AC_SEQUENCE_MAX_LEN_def empty_item_def ping_packet_def packet_type_def
        AC_PTYPE_PING_def AC_PTYPE_INFO_def)

lemma parsing_ping_completes: "\<exists>s'. doParsingPacket 5 parsing_ping = Some s'"
  using ping_packet_checksum
  by (intro doParsingPacket_completes [where ok = True and p = ping_packet])
     (simp_all add: parsing_ping_facts)

lemma parsing_damaged_completes: "\<exists>s'. doParsingPacket 5 parsing_damaged = Some s'"
  using damaged_packet_checksum parsing_ping_facts
  by (intro doParsingPacket_completes
        [where ok = False and p = "ping_packet\<lparr>data := (data ping_packet)[9 := 0]\<rparr>"])
     (simp_all add: parsing_damaged_def hasSequence_def packet_type_def ping_packet_def
        AC_PTYPE_INFO_def)

text \<open>
  Claim C4, as the code has it. A parsing step that completes leaves the state machine in
  the sending state when the packet is a ping packet with a correct checksum (the answer
  to the ping has been put into the outgoing packet), and in the idle state in every
  other case: a wrong checksum, a command, info, init or unknown packet.
\<close>

theorem parsing_ends_idle_or_sending:
  assumes "doParsingPacket now s = Some s'"
  shows "ac_state s' = (if checksum_ok (inPacket s) \<and> packet_type (inPacket s) = AC_PTYPE_PING
                        then ACSM_SENDING_PACKET else ACSM_IDLE)"
  using assms by (rule doParsingPacket_ac_state)

theorem parsing_ends_idle_or_sending_witness:
  "\<not> checksum_ok (inPacket parsing_damaged)
   \<and> map_option ac_state (doParsingPacket 5 parsing_damaged) = Some ACSM_IDLE
   \<and> checksum_ok (inPacket parsing_ping)
   \<and> packet_type (inPacket parsing_ping) = AC_PTYPE_PING
   \<and> map_option ac_state (doParsingPacket 5 parsing_ping) = Some ACSM_SENDING_PACKET"
proof -
  obtain s1 where s1: "doParsingPacket 5 parsing_damaged = Some s1"
    using parsing_damaged_completes by blast
  obtain s2 where s2: "doParsingPacket 5 parsing_ping = Some s2"
    using parsing_ping_completes by blast
  have k1: "\<not> checksum_ok (inPacket parsing_damaged)"
    by (simp add: checksum_ok_def parsing_damaged_def damaged_packet_checksum)
  have k2: "checksum_ok (inPacket parsing_ping)"
    by (simp add: checksum_ok_def parsing_ping_facts ping_packet_checksum)
  from parsing_ends_idle_or_sending [OF s1] parsing_ends_idle_or_sending [OF s2]
  show ?thesis using s1 s2 k1 k2 by (simp add: parsing_ping_facts)
qed

text \<open>
  Claim C4 as stated has every parsing step end in the idle state. The parsing of a ping
  packet with a correct checksum ends in the sending state.
\<close>

theorem parsing_ping_counterexample:
  "ac_state parsing_ping = ACSM_PARSING_PACKET
   \<and> map_option ac_state (doParsingPacket 5 parsing_ping) = Some ACSM_SENDING_PACKET"
proof -
  obtain s2 where s2: "doParsingPacket 5 parsing_ping = Some s2"
    using parsing_ping_completes by blast
  have "checksum_ok (inPacket parsing_ping)"
    by (simp add: checksum_ok_def parsing_ping_facts ping_packet_checksum)
  with doParsingPacket_ac_state [OF s2] s2 show ?thesis
    by (simp add: parsing_ping_facts)
qed

subsection \<open>Decoding a small status packet\<close>

lemma drop_bit_7: "drop_bit 7 (b4 :: 8 word) = (if bit b4 7 then 1 else 0)"
proof (rule bit_word_eqI)
  fix n
  assume "n < LENGTH(8)"
  show "bit (drop_bit 7 b4) n = bit (if bit b4 7 then 1 else 0 :: 8 word) n"
  proof (cases "n = 0")
    case True
    then show ?thesis by (simp add: bit_simps)
  next
    case False
    then have "\<not> bit b4 (7 + n)"
      using bit_imp_le_length [of b4 "7 + n"] by auto
    then show ?thesis using False by (simp add: bit_simps)
  qed
qed

lemma clamp_temp_fields:
  "louver_v (clamp_temp c) = louver_v c"
  "16 \<le> temp_target c \<Longrightarrow> temp_target c \<le> 32 \<Longrightarrow> clamp_temp c = c"
  by (simp_all add: clamp_temp_def Let_def AC_MIN_TEMPERATURE_def AC_MAX_TEMPERATURE_def)

lemma notify_current [simp]: "current_ac_state (notify r s) = snd r"
  by (simp add: notify_def stateChanged_def Let_def)

lemma doParsingPacket_small_status:
  assumes k: "checksum_ok (inPacket s)"
      and t: "packet_type (inPacket s) = AC_PTYPE_INFO"
      and b1: "rd (data (inPacket s)) (body (inPacket s)) 1 = Some AC_CMD_STATUS_SMALL"
      and r: "doParsingPacket now s = Some s'"
  shows "\<exists>d. parse_small (data (inPacket s)) (body (inPacket s)) (current_ac_state s) = Some d
             \<and> (current_ac_state s' = snd d \<or> current_ac_state s' = clamp_temp (snd d))"
proof -
  from k obtain p where c: "checkCRC (inPacket s) = Some (True, p)"
    by (auto simp: checksum_ok_def)
  have pd: "body p = body (inPacket s)" "data p = data (inPacket s)"
    using checkCRC_body [OF c] by simp_all
  have pt: "packet_type p = AC_PTYPE_INFO"
    using checkCRC_packet_type [OF c] t by simp
  from r c obtain s1 s2 where
      d: "dispatch_packet now (s\<lparr>inPacket := p\<rparr>) = Some s1"
      and q: "(if hasSequence s1 then doSequence now s1 else Some s1) = Some s2"
      and e: "s' = clearInPacket s2"
    by (auto simp: doParsingPacket_def bind_eq_Some_conv)
  from d pt have "parse_info (s\<lparr>inPacket := p\<rparr>) = Some s1"
    by (simp add: dispatch_packet_def AC_PTYPE_INFO_def AC_PTYPE_PING_def AC_PTYPE_CMD_def)
  with b1 pd obtain dd where
      ps: "parse_small (data (inPacket s)) (body (inPacket s)) (current_ac_state s) = Some dd"
      and s1: "current_ac_state s1 = snd dd"
    by (auto simp: parse_info_def bind_eq_Some_conv setStateMachineState_eq)
  have "seq_frame s1 s2"
    using q by (auto split: if_splits dest: doSequence_frame)
  then have "current_ac_state s2 = snd dd \<or> current_ac_state s2 = clamp_temp (snd dd)"
    using s1 by (auto simp: seq_frame_def)
  with ps e show ?thesis by (simp add: clearInPacket_def)
qed

lemma parse_small_temp_louver:
  assumes "parse_small d p st = Some r" and "rd d p 2 = Some b2" and "rd d p 4 = Some b4"
  shows "temp_target (snd r) = target_temp b2 b4 \<and> louver_v (snd r) = b2 AND AC_LOUVERV_MASK"
  using assms by (auto simp: parse_small_def bind_eq_Some_conv)

text \<open>
  Claim C7. When a small status packet with a correct checksum is parsed, its target
  temperature byte is \<open>0x98\<close> and the high bit of its fraction byte is set, the AC state
  afterwards holds the target temperature 27.5 (which is \<open>8 + (0x98 >> 3) + 0.5\<close>) and
  the vertical louver value of swing, the three low bits of \<open>0x98\<close> being zero.
\<close>

theorem small_status_decodes_27_5_and_swing:
  assumes "checksum_ok (inPacket s)"
      and "packet_type (inPacket s) = AC_PTYPE_INFO"
      and "rd (data (inPacket s)) (body (inPacket s)) 1 = Some AC_CMD_STATUS_SMALL"
      and "rd (data (inPacket s)) (body (inPacket s)) 2 = Some 0x98"
      and "rd (data (inPacket s)) (body (inPacket s)) 4 = Some b4"
      and "bit b4 7"
      and "doParsingPacket now s = Some s'"
  shows "temp_target (current_ac_state s') = 55 / 2
         \<and> temp_target (current_ac_state s') = 8 + of_nat (unat (drop_bit 3 (0x98 :: 8 word))) + 1 / 2
         \<and> louver_v (current_ac_state s') = AC_LOUVERV_SWING_UPDOWN"
proof -
  from doParsingPacket_small_status [OF assms(1-3) assms(7)] obtain d where
      p: "parse_small (data (inPacket s)) (body (inPacket s)) (current_ac_state s) = Some d"
      and c: "current_ac_state s' = snd d \<or> current_ac_state s' = clamp_temp (snd d)"
    by blast
  have "temp_target (snd d) = target_temp 0x98 b4" "louver_v (snd d) = 0x98 AND AC_LOUVERV_MASK"
    using parse_small_temp_louver [OF p assms(4) assms(5)] by simp_all
  then have t: "temp_target (snd d) = 55 / 2" and l: "louver_v (snd d) = AC_LOUVERV_SWING_UPDOWN"
    using assms(6)
    by (simp_all add: target_temp_def drop_bit_7 AC_LOUVERV_MASK_def AC_LOUVERV_SWING_UPDOWN_def)
  have "clamp_temp (snd d) = snd d"
    using t by (simp add: clamp_temp_fields)
  with c t l show ?thesis by auto
qed

lemma small_status_packet_checksum:
  "checkCRC small_status_packet = Some (True, small_status_packet)"
proof -
  have "CRC16 (data small_status_packet) 23 = Some 0xF44C"
    using CRC16_spec [of 23 "data small_status_packet"]
    by (simp add: small_status_packet_def AC_BUFFER_SIZE_def checksum_spec_def)
  then show ?thesis
    by (simp add: checkCRC_def small_status_packet_def body_length_def crc_ptr_def rd_def
          crc_byte_def AC_HEADER_SIZE_def AC_BUFFER_SIZE_def)
qed

lemma parsing_small_status_completes: "\<exists>s'. doParsingPacket 5 parsing_small_status = Some s'"
  using small_status_packet_checksum
  by (intro doParsingPacket_completes [where ok = True and p = small_status_packet])
     (simp_all add: parsing_small_status_def initAC_def clearSequence_def clearOutPacket_def
        hasSequence_def AC_SEQUENCE_MAX_LEN_def empty_item_def small_status_packet_def
        AC_HEADER_SIZE_def)

theorem small_status_decodes_27_5_and_swing_witness:
  "checksum_ok (inPacket parsing_small_status)
   \<and> packet_type (inPacket parsing_small_status) = AC_PTYPE_INFO
   \<and> rd (data (inPacket parsing_small_status)) (body (inPacket parsing_small_status)) 1
       = Some AC_CMD_STATUS_SMALL
   \<and> rd (data (inPacket parsing_small_status)) (body (inPacket parsing_small_status)) 2 = Some 0x98
   \<and> rd (data (inPacket parsing_small_status)) (body (inPacket parsing_small_status)) 4 = Some 0x80
   \<and> bit (0x80 :: 8 word) 7
   \<and> map_option (temp_target \<circ> current_ac_state) (doParsingPacket 5 parsing_small_status)
       = Some (55 / 2)
   \<and> map_option (louver_v \<circ> current_ac_state) (doParsingPacket 5 parsing_small_status)
       = Some AC_LOUVERV_SWING_UPDOWN"
proof -
  have i: "inPacket parsing_small_status = small_status_packet"
    by (simp add: parsing_small_status_def)
  have h1: "checksum_ok (inPacket parsing_small_status)"
    by (simp add: i checksum_ok_def small_status_packet_checksum)
  have h2: "packet_type (inPacket parsing_small_status) = AC_PTYPE_INFO"
    by (simp add: i small_status_packet_def packet_type_def AC_PTYPE_INFO_def)
  have h3: "rd (data (inPacket parsing_small_status)) (body (inPacket parsing_small_status)) 1
            = Some AC_CMD_STATUS_SMALL"
    by (simp add: i small_status_packet_def rd_def AC_BUFFER_SIZE_def AC_CMD_STATUS_SMALL_def)
  have h4: "rd (data (inPacket parsing_small_status)) (body (inPacket parsing_small_status)) 2
            = Some 0x98"
    by (simp add: i small_status_packet_def rd_def AC_BUFFER_SIZE_def)
  have h5: "rd (data (inPacket parsing_small_status)) (body (inPacket parsing_small_status)) 4
            = Some 0x80"
    by (simp add: i small_status_packet_def rd_def AC_BUFFER_SIZE_def)
  have h6: "bit (0x80 :: 8 word) 7"
    by simp
  obtain s' where h7: "doParsingPacket 5 parsing_small_status = Some s'"
    using parsing_small_status_completes by blast
  from small_status_decodes_27_5_and_swing [OF h1 h2 h3 h4 h5 h6 h7]
  show ?thesis using h1 h2 h3 h4 h5 h6 h7 by simp
qed

subsection \<open>Encoding a set-command packet\<close>

lemma length_set_bits [simp]: "length (set_bits k m v d) = length d"
  by (simp add: set_bits_def)

lemma length_set_field [simp]: "length (set_field v u k m d) = length d"
  by (simp add: set_field_def)

lemma length_set_temp [simp]: "length (set_temp c d) = length d"
  by (simp add: set_temp_def)

lemma length_fill_fields [simp]: "length (fill_fields c d) = length d"
  by (simp add: fill_fields_def Let_def)

lemma nth_set_bits:
  "set_bits k m v d ! i
   = (if i = AC_HEADER_SIZE + k \<and> i < length d then (d ! i AND NOT m) OR v else d ! i)"
  by (auto simp: set_bits_def nth_list_update list_update_beyond)

lemma nth_set_field:
  "set_field v u k m d ! i
   = (if i = AC_HEADER_SIZE + k \<and> i < length d then ov v u m (d ! i) else d ! i)"
  by (simp add: set_field_def ov_def nth_set_bits)

lemma nth_set_temp:
  "set_temp c d ! i
   = (if i = 10 \<and> i < length d then temp_int_byte c (d ! i)
      else if i = 12 \<and> i < length d then temp_frac_byte c (d ! i) else d ! i)"
  by (simp add: set_temp_def temp_int_byte_def temp_frac_byte_def nth_set_bits AC_HEADER_SIZE_def)

lemma nth_fill_fields:
  assumes "length d = AC_BUFFER_SIZE"
  shows "fill_fields c d ! 10
           = ov (louver_v c) AC_LOUVERV_UNTOUCHED AC_LOUVERV_MASK (temp_int_byte c (d ! 10))"
    and "fill_fields c d ! 11 = ov (louver_h c) AC_LOUVERH_UNTOUCHED AC_LOUVERH_MASK (d ! 11)"
    and "fill_fields c d ! 12 = temp_frac_byte c (d ! 12)"
    and "fill_fields c d ! 13 = ov (fanSpeed c) AC_FANSPEED_UNTOUCHED AC_FANSPEED_MASK (d ! 13)"
    and "fill_fields c d ! 14
           = ov (fanMute c) AC_FANMUTE_UNTOUCHED AC_FANMUTE_MASK
               (ov (fanTurbo c) AC_FANTURBO_UNTOUCHED AC_FANTURBO_MASK (d ! 14))"
    and "fill_fields c d ! 15
           = ov (iFeel c) AC_IFEEL_UNTOUCHED AC_IFEEL_MASK
               (ov (sleep c) AC_SLEEP_UNTOUCHED AC_SLEEP_MASK
                  (ov (mode c) AC_MODE_UNTOUCHED AC_MODE_MASK (d ! 15)))"
    and "fill_fields c d ! 18
           = ov (health c) AC_HEALTH_UNTOUCHED AC_HEALTH_MASK
               (ov (clean c) AC_CLEAN_UNTOUCHED AC_CLEAN_MASK
                  (ov (power_st c) AC_POWER_UNTOUCHED AC_POWER_MASK (d ! 18)))"
    and "fill_fields c d ! 20
           = ov (mildew c) AC_MILDEW_UNTOUCHED AC_MILDEW_MASK
               (ov (display c) AC_DISPLAY_UNTOUCHED AC_DISPLAY_MASK (d ! 20))"
    and "fill_fields c d ! 6 = d ! 6"
  using assms
  by (simp_all add: fill_fields_def Let_def nth_set_field nth_set_temp AC_HEADER_SIZE_def
        AC_BUFFER_SIZE_def)

lemma fill_from_eq:
  assumes "length (data pack) = AC_BUFFER_SIZE"
  shows "fill_from now pack c
         = Some (pack\<lparr>msec := now, body := Some AC_HEADER_SIZE, bytesLoaded := 25,
                      crc := Some (AC_HEADER_SIZE + 15),
                      data := with_crc (set_params_data c (data pack))\<rparr>, clamp_temp c)"
proof -
  let ?d = "set_params_data c (data pack)"
  let ?p = "pack\<lparr>msec := now, body := Some AC_HEADER_SIZE, bytesLoaded := 25,
                 crc := Some (AC_HEADER_SIZE + 15), data := ?d\<rparr>"
  have l: "length ?d = AC_BUFFER_SIZE"
    using assms by (simp add: set_params_data_def)
  have b: "body_length ?p = 15"
    using assms
    by (simp add: body_length_def set_params_data_def nth_fill_fields AC_BUFFER_SIZE_def)
  have "setCRC16 ?p = Some (?p\<lparr>data := with_crc ?d\<rparr>)"
    using setCRC16_eq [of ?p] l b
    by (simp add: with_crc_def AC_HEADER_SIZE_def AC_MAX_BODY_SIZE_def)
  then show ?thesis
    by (simp add: fill_from_def Let_def set_params_data_def)
qed

lemma length_with_crc [simp]: "length (with_crc d) = length d"
  by (simp add: with_crc_def)

lemma length_set_params_data [simp]: "length (set_params_data c d) = length d"
  by (simp add: set_params_data_def)

text \<open>
  \<^verbatim>\<open>_fillSetCommand(true, &_outPacket, &_sequence[i].cmd)\<close>: the outgoing packet is filled
  from the AC state first and from the command then, and both are stored back clamped.
\<close>

lemma fillSetCommand_outPacket:
  assumes "i < AC_SEQUENCE_MAX_LEN"
  shows "fillSetCommand now True Ref_outPacket (Ref_sequence_cmd i) s
         = Some (s\<lparr>outPacket :=
                     \<lparr>msec = now, crc = Some (AC_HEADER_SIZE + 15), body = Some AC_HEADER_SIZE,
                      bytesLoaded = 25,
                      data = with_crc (set_params_data (cmd (sequence s ! i))
                               (with_crc (set_params_data (current_ac_state s) clearBuffer)))\<rparr>,
                   current_ac_state := clamp_temp (current_ac_state s),
                   sequence := (sequence s)[i := (sequence s ! i)\<lparr>cmd := clamp_temp (cmd (sequence s ! i))\<rparr>]\<rparr>)"
  using assms
  by (simp add: fillSetCommand_def fill_from_ref_def fill_from_eq seq_get_def seq_put_def
        clearPacket_def clearBuffer_def AC_BUFFER_SIZE_def)


subsection \<open>Reading the parameters back from the body\<close>

lemma and_mask_bit: "(v :: 8 word) AND m = v \<Longrightarrow> bit v n \<Longrightarrow> bit m n"
  by (metis bit_and_iff)

lemma disjoint_bit: "(m :: 8 word) AND m' = 0 \<Longrightarrow> bit m n \<Longrightarrow> \<not> bit m' n"
  by (metis bit_and_iff bit_0_eq bot_apply bot_bool_def)

lemma and_set_same: "(v :: 8 word) AND m = v \<Longrightarrow> ((x AND NOT m) OR v) AND m = v"
  by (rule bit_word_eqI) (auto simp: bit_simps dest: and_mask_bit)

lemma and_set_other:
  "m AND m' = 0 \<Longrightarrow> (v :: 8 word) AND m' = v \<Longrightarrow> ((x AND NOT m') OR v) AND m = x AND m"
  by (rule bit_word_eqI) (auto simp: bit_simps dest: and_mask_bit disjoint_bit)

lemma in_mask_not_untouched:
  assumes "in_mask m v" and "m \<noteq> 0xFF"
  shows "v \<noteq> 0xFF"
proof
  assume "v = 0xFF"
  moreover have "(0xFF :: 8 word) = - 1" by simp
  ultimately have "m = 0xFF" using assms(1) by (simp add: in_mask_def)
  with assms(2) show False by simp
qed

lemma ov_same: "settable m u v \<Longrightarrow> ov v u m x AND m = merged u v (x AND m)"
  by (auto simp: ov_def merged_def settable_def in_mask_def and_set_same)

lemma ov_other: "m AND m' = 0 \<Longrightarrow> settable m' u v \<Longrightarrow> ov v u m' x AND m = x AND m"
  by (auto simp: ov_def settable_def in_mask_def and_set_other)

lemma in_mask_settable: "in_mask m v \<Longrightarrow> settable m u v"
  by (simp add: settable_def)

lemma merged_in_mask: "in_mask m v \<Longrightarrow> m \<noteq> 0xFF \<Longrightarrow> merged 0xFF v old = v"
  by (auto simp: merged_def dest: in_mask_not_untouched)


lemma clamp_temp_simps [simp]:
  "power_st (clamp_temp c) = power_st c" "clean (clamp_temp c) = clean c"
  "health (clamp_temp c) = health c" "mode (clamp_temp c) = mode c"
  "sleep (clamp_temp c) = sleep c" "iFeel (clamp_temp c) = iFeel c"
  "louver_h (clamp_temp c) = louver_h c" "louver_v (clamp_temp c) = louver_v c"
  "fanSpeed (clamp_temp c) = fanSpeed c" "fanTurbo (clamp_temp c) = fanTurbo c"
  "fanMute (clamp_temp c) = fanMute c" "display (clamp_temp c) = display c"
  "mildew (clamp_temp c) = mildew c"
  "temp_target_matter (clamp_temp c) = temp_target_matter c"
  by (simp_all add: clamp_temp_def Let_def)

lemma clamp_temp_id:
  "(temp_target_matter c \<Longrightarrow> whole_16_32 (temp_target c)) \<Longrightarrow> clamp_temp c = c"
  by (auto simp: clamp_temp_def Let_def whole_16_32_def AC_MIN_TEMPERATURE_def
        AC_MAX_TEMPERATURE_def)

lemma body_bytes:
  assumes "length d = AC_BUFFER_SIZE"
  shows "with_crc (set_params_data c d) ! 10
           = ov (louver_v c) AC_LOUVERV_UNTOUCHED AC_LOUVERV_MASK
               (temp_int_byte (clamp_temp c) (d ! 10))"
    and "with_crc (set_params_data c d) ! 11
           = ov (louver_h c) AC_LOUVERH_UNTOUCHED AC_LOUVERH_MASK (d ! 11)"
    and "with_crc (set_params_data c d) ! 12 = temp_frac_byte (clamp_temp c) (d ! 12)"
    and "with_crc (set_params_data c d) ! 13
           = ov (fanSpeed c) AC_FANSPEED_UNTOUCHED AC_FANSPEED_MASK (d ! 13)"
    and "with_crc (set_params_data c d) ! 14
           = ov (fanMute c) AC_FANMUTE_UNTOUCHED AC_FANMUTE_MASK
               (ov (fanTurbo c) AC_FANTURBO_UNTOUCHED AC_FANTURBO_MASK (d ! 14))"
    and "with_crc (set_params_data c d) ! 15
           = ov (iFeel c) AC_IFEEL_UNTOUCHED AC_IFEEL_MASK
               (ov (sleep c) AC_SLEEP_UNTOUCHED AC_SLEEP_MASK
                  (ov (mode c) AC_MODE_UNTOUCHED AC_MODE_MASK (d ! 15)))"
    and "with_crc (set_params_data c d) ! 18
           = ov (health c) AC_HEALTH_UNTOUCHED AC_HEALTH_MASK
               (ov (clean c) AC_CLEAN_UNTOUCHED AC_CLEAN_MASK
                  (ov (power_st c) AC_POWER_UNTOUCHED AC_POWER_MASK (d ! 18)))"
    and "with_crc (set_params_data c d) ! 20
           = ov (mildew c) AC_MILDEW_UNTOUCHED AC_MILDEW_MASK
               (ov (display c) AC_DISPLAY_UNTOUCHED AC_DISPLAY_MASK (d ! 20))"
  using assms
  by (simp_all add: with_crc_def set_params_data_def nth_fill_fields)

lemma clearBuffer_nth: "i < AC_BUFFER_SIZE \<Longrightarrow> clearBuffer ! i = 0"
  by (simp add: clearBuffer_def)

lemma length_clearBuffer [simp]: "length clearBuffer = AC_BUFFER_SIZE"
  by (simp add: clearBuffer_def)

lemma ov_zero: "in_mask m v \<Longrightarrow> m \<noteq> 0xFF \<Longrightarrow> ov v 0xFF m x AND m = v"
  using ov_same [of m "0xFF" v x] by (simp add: in_mask_settable merged_in_mask)


lemmas mask_defs =
  AC_POWER_MASK_def AC_CLEAN_MASK_def AC_HEALTH_MASK_def AC_HEALTH_STATUS_MASK_def
  AC_MODE_MASK_def AC_SLEEP_MASK_def AC_IFEEL_MASK_def AC_LOUVERH_MASK_def AC_LOUVERV_MASK_def
  AC_FANSPEED_MASK_def AC_FANTURBO_MASK_def AC_FANMUTE_MASK_def AC_DISPLAY_MASK_def
  AC_MILDEW_MASK_def AC_TEMP_TARGET_INT_PART_MASK_def AC_TEMP_TARGET_FRAC_PART_MASK_def

lemmas untouched_defs =
  AC_POWER_UNTOUCHED_def AC_CLEAN_UNTOUCHED_def AC_HEALTH_UNTOUCHED_def
  AC_MODE_UNTOUCHED_def AC_SLEEP_UNTOUCHED_def AC_IFEEL_UNTOUCHED_def AC_LOUVERH_UNTOUCHED_def
  AC_LOUVERV_UNTOUCHED_def AC_FANSPEED_UNTOUCHED_def AC_FANTURBO_UNTOUCHED_def
  AC_FANMUTE_UNTOUCHED_def AC_DISPLAY_UNTOUCHED_def AC_MILDEW_UNTOUCHED_def

text \<open>One, two or three parameters written into a byte, and one of them read back.\<close>

lemma ov_chain:
  "settable m1 u v1 \<Longrightarrow> ov v1 u m1 x AND m1 = merged u v1 (x AND m1)"
  "settable m1 u v1 \<Longrightarrow> settable m2 u v2 \<Longrightarrow> m1 AND m2 = 0
   \<Longrightarrow> ov v2 u m2 (ov v1 u m1 x) AND m1 = merged u v1 (x AND m1)"
  "settable m1 u v1 \<Longrightarrow> settable m2 u v2 \<Longrightarrow> m2 AND m1 = 0
   \<Longrightarrow> ov v2 u m2 (ov v1 u m1 x) AND m2 = merged u v2 (x AND m2)"
  "settable m1 u v1 \<Longrightarrow> settable m2 u v2 \<Longrightarrow> settable m3 u v3 \<Longrightarrow> m1 AND m2 = 0 \<Longrightarrow> m1 AND m3 = 0
   \<Longrightarrow> ov v3 u m3 (ov v2 u m2 (ov v1 u m1 x)) AND m1 = merged u v1 (x AND m1)"
  "settable m1 u v1 \<Longrightarrow> settable m2 u v2 \<Longrightarrow> settable m3 u v3 \<Longrightarrow> m2 AND m1 = 0 \<Longrightarrow> m2 AND m3 = 0
   \<Longrightarrow> ov v3 u m3 (ov v2 u m2 (ov v1 u m1 x)) AND m2 = merged u v2 (x AND m2)"
  "settable m1 u v1 \<Longrightarrow> settable m2 u v2 \<Longrightarrow> settable m3 u v3 \<Longrightarrow> m3 AND m1 = 0 \<Longrightarrow> m3 AND m2 = 0
   \<Longrightarrow> ov v3 u m3 (ov v2 u m2 (ov v1 u m1 x)) AND m3 = merged u v3 (x AND m3)"
  by (simp_all add: ov_same ov_other)

text \<open>A byte written from the AC state and then from the command, and a parameter read back.\<close>

lemma merged_state: "in_mask m vs \<Longrightarrow> m \<noteq> 0xFF \<Longrightarrow> merged 0xFF v (merged 0xFF vs old) = merged 0xFF v vs"
  by (simp add: merged_in_mask)

lemma round_trip_1:
  assumes "settable m 0xFF v" and "in_mask m vs" and "m \<noteq> 0xFF"
  shows "ov v 0xFF m (ov vs 0xFF m 0) AND m = merged 0xFF v vs"
  using assms by (simp add: ov_chain in_mask_settable merged_state)

lemma round_trip_2:
  assumes "settable m1 0xFF v1" "settable m2 0xFF v2" "in_mask m1 s1" "in_mask m2 s2"
      and "m1 \<noteq> 0xFF" "m2 \<noteq> 0xFF" "m1 AND m2 = 0" "m2 AND m1 = 0"
  shows "ov v2 0xFF m2 (ov v1 0xFF m1 (ov s2 0xFF m2 (ov s1 0xFF m1 0))) AND m1 = merged 0xFF v1 s1"
    and "ov v2 0xFF m2 (ov v1 0xFF m1 (ov s2 0xFF m2 (ov s1 0xFF m1 0))) AND m2 = merged 0xFF v2 s2"
  using assms by (simp_all add: ov_chain in_mask_settable merged_state)

lemma round_trip_3:
  assumes "settable m1 0xFF v1" "settable m2 0xFF v2" "settable m3 0xFF v3"
      and "in_mask m1 s1" "in_mask m2 s2" "in_mask m3 s3"
      and "m1 \<noteq> 0xFF" "m2 \<noteq> 0xFF" "m3 \<noteq> 0xFF"
      and "m1 AND m2 = 0" "m1 AND m3 = 0" "m2 AND m1 = 0" "m2 AND m3 = 0" "m3 AND m1 = 0" "m3 AND m2 = 0"
  shows "ov v3 0xFF m3 (ov v2 0xFF m2 (ov v1 0xFF m1 (ov s3 0xFF m3 (ov s2 0xFF m2 (ov s1 0xFF m1 0)))))
           AND m1 = merged 0xFF v1 s1"
    and "ov v3 0xFF m3 (ov v2 0xFF m2 (ov v1 0xFF m1 (ov s3 0xFF m3 (ov s2 0xFF m2 (ov s1 0xFF m1 0)))))
           AND m2 = merged 0xFF v2 s2"
    and "ov v3 0xFF m3 (ov v2 0xFF m2 (ov v1 0xFF m1 (ov s3 0xFF m3 (ov s2 0xFF m2 (ov s1 0xFF m1 0)))))
           AND m3 = merged 0xFF v3 s3"
  using assms by (simp_all add: ov_chain in_mask_settable merged_state)


subsection \<open>Reading the target temperature back\<close>

lemma mask_F8: "(0xF8 :: 8 word) = NOT (mask 3)"
  by (simp add: mask_eq_exp_minus_1)

lemma mask_07: "(0x07 :: 8 word) = mask 3"
  by (simp add: mask_eq_exp_minus_1)

lemma drop_bit_louver:
  "(lv :: 8 word) AND 0x07 = lv \<Longrightarrow> drop_bit 3 ((y AND NOT 0x07) OR lv) = drop_bit 3 y"
  unfolding mask_07
  by (rule bit_word_eqI) (auto simp: bit_simps dest: and_mask_bit bit_imp_le_length)

lemma drop_bit_temp:
  assumes "(w :: 8 word) < 32"
  shows "drop_bit 3 ((x AND NOT 0xF8) OR push_bit 3 w) = w"
proof -
  have "w < 2 ^ 5"
    using assms by simp
  then have "w AND mask 5 = w"
    by (rule less_mask_eq)
  then have w: "\<And>k. bit w k \<Longrightarrow> k < 5"
    by (metis bit_and_iff bit_mask_iff)
  show ?thesis
    unfolding mask_F8
    by (rule bit_word_eqI) (auto simp: bit_simps dest: w bit_imp_le_length)
qed

lemma temp_word:
  assumes "whole_16_32 t"
  shows "(of_int \<lfloor>t\<rfloor> - 8 :: 8 word) < 32"
    and "8 + of_nat (unat (of_int \<lfloor>t\<rfloor> - 8 :: 8 word)) = t"
proof -
  have f: "16 \<le> \<lfloor>t\<rfloor>" "\<lfloor>t\<rfloor> \<le> 32" and e: "t = of_int \<lfloor>t\<rfloor>"
    using assms unfolding whole_16_32_def by linarith+
  define n where "n = nat (\<lfloor>t\<rfloor> - 8)"
  have n: "8 \<le> n" "n \<le> 24" "\<lfloor>t\<rfloor> = int n + 8"
    using f unfolding n_def by linarith+
  have w: "(of_int \<lfloor>t\<rfloor> - 8 :: 8 word) = of_nat n"
    by (simp add: n)
  have u: "unat (of_nat n :: 8 word) = n"
    using n by (simp add: unat_of_nat)
  show "(of_int \<lfloor>t\<rfloor> - 8 :: 8 word) < 32"
    using n u by (simp add: w word_less_nat_alt)
  have "8 + of_nat n = t"
    using e n by simp
  then show "8 + of_nat (unat (of_int \<lfloor>t\<rfloor> - 8 :: 8 word)) = t"
    by (simp add: w u)
qed

lemma drop_bit_ov_louver:
  "settable AC_LOUVERV_MASK AC_LOUVERV_UNTOUCHED lv
   \<Longrightarrow> drop_bit 3 (ov lv AC_LOUVERV_UNTOUCHED AC_LOUVERV_MASK y) = drop_bit 3 y"
proof (cases "lv = AC_LOUVERV_UNTOUCHED")
  case True
  then show ?thesis by (simp add: ov_def)
next
  case False
  assume "settable AC_LOUVERV_MASK AC_LOUVERV_UNTOUCHED lv"
  with False have "lv AND 0x07 = lv"
    by (simp add: settable_def in_mask_def AC_LOUVERV_MASK_def)
  then have "drop_bit 3 ((y AND NOT 0x07) OR lv) = drop_bit 3 y"
    by (rule drop_bit_louver)
  moreover have "ov lv AC_LOUVERV_UNTOUCHED AC_LOUVERV_MASK y = (y AND NOT 0x07) OR lv"
    using False by (simp add: ov_def AC_LOUVERV_MASK_def)
  ultimately show ?thesis by simp
qed

lemma temp_int_byte_set:
  "temp_target_matter c \<Longrightarrow> whole_16_32 (temp_target c)
   \<Longrightarrow> 8 + of_nat (unat (drop_bit 3 (temp_int_byte c y))) = temp_target c"
proof -
  assume m: "temp_target_matter c" and w: "whole_16_32 (temp_target c)"
  have "drop_bit 3 ((y AND NOT 0xF8) OR push_bit 3 (of_int \<lfloor>temp_target c\<rfloor> - 8 :: 8 word))
        = of_int \<lfloor>temp_target c\<rfloor> - 8"
    using temp_word(1) [OF w] by (rule drop_bit_temp)
  then have "drop_bit 3 (temp_int_byte c y) = of_int \<lfloor>temp_target c\<rfloor> - 8"
    using m by (simp only: temp_int_byte_def AC_TEMP_TARGET_INT_PART_MASK_def if_True)
  then show ?thesis
    using temp_word(2) [OF w] by simp
qed

lemma temp_int_byte_untouched: "\<not> temp_target_matter c \<Longrightarrow> temp_int_byte c y = y"
  by (simp add: temp_int_byte_def)

lemma temp_frac_byte_bit: "\<not> bit x 7 \<Longrightarrow> \<not> bit (temp_frac_byte c x) 7"
  by (simp add: temp_frac_byte_def AC_TEMP_TARGET_FRAC_PART_MASK_def bit_simps)

lemma temp_frac_zero: "drop_bit 7 (temp_frac_byte c (temp_frac_byte st 0)) = 0"
proof -
  have "\<not> bit (temp_frac_byte c (temp_frac_byte st 0)) 7"
    by (intro temp_frac_byte_bit) simp
  then show ?thesis by (simp add: drop_bit_7)
qed

lemma round_trip_temp:
  assumes "settable AC_LOUVERV_MASK AC_LOUVERV_UNTOUCHED lc"
      and "settable AC_LOUVERV_MASK AC_LOUVERV_UNTOUCHED ls"
      and "temp_ok c st"
  shows "target_temp
           (ov lc AC_LOUVERV_UNTOUCHED AC_LOUVERV_MASK
              (temp_int_byte (clamp_temp c)
                 (ov ls AC_LOUVERV_UNTOUCHED AC_LOUVERV_MASK (temp_int_byte (clamp_temp st) 0))))
           (temp_frac_byte (clamp_temp c) (temp_frac_byte (clamp_temp st) 0))
         = (if temp_target_matter c then temp_target c else temp_target st)"
proof (cases "temp_target_matter c")
  case True
  then have w: "whole_16_32 (temp_target c)"
    using assms(3) by (simp add: temp_ok_def)
  then have "clamp_temp c = c"
    by (simp add: clamp_temp_id)
  then show ?thesis
    using True assms(1)
      temp_int_byte_set [OF True w,
        of "ov ls AC_LOUVERV_UNTOUCHED AC_LOUVERV_MASK (temp_int_byte (clamp_temp st) 0)"]
    by (simp add: target_temp_def temp_frac_zero drop_bit_ov_louver)
next
  case False
  then have m: "temp_target_matter st" and w: "whole_16_32 (temp_target st)"
    using assms(3) by (simp_all add: temp_ok_def)
  then have "clamp_temp st = st"
    by (simp add: clamp_temp_id)
  then show ?thesis
    using False assms(1,2) temp_int_byte_set [OF m w, of 0]
    by (simp add: target_temp_def temp_frac_zero drop_bit_ov_louver temp_int_byte_untouched
          clamp_temp_id)
qed


subsection \<open>The round trip\<close>

lemma parse_small_eq:
  "parse_small d (Some AC_HEADER_SIZE) st0 = Some r
   \<Longrightarrow> temp_target (snd r) = target_temp (d ! 10) (d ! 12)
       \<and> louver_v (snd r) = d ! 10 AND AC_LOUVERV_MASK
       \<and> louver_h (snd r) = d ! 11 AND AC_LOUVERH_MASK
       \<and> fanSpeed (snd r) = d ! 13 AND AC_FANSPEED_MASK
       \<and> fanTurbo (snd r) = d ! 14 AND AC_FANTURBO_MASK
       \<and> fanMute (snd r) = d ! 14 AND AC_FANMUTE_MASK
       \<and> mode (snd r) = d ! 15 AND AC_MODE_MASK
       \<and> sleep (snd r) = d ! 15 AND AC_SLEEP_MASK
       \<and> iFeel (snd r) = d ! 15 AND AC_IFEEL_MASK
       \<and> power_st (snd r) = d ! 18 AND AC_POWER_MASK
       \<and> health (snd r) = d ! 18 AND AC_HEALTH_MASK
       \<and> health_status (snd r) = d ! 18 AND AC_HEALTH_STATUS_MASK
       \<and> clean (snd r) = d ! 18 AND AC_CLEAN_MASK
       \<and> display (snd r) = d ! 20 AND AC_DISPLAY_MASK
       \<and> mildew (snd r) = d ! 20 AND AC_MILDEW_MASK"
  by (auto simp: parse_small_def rd_def AC_HEADER_SIZE_def AC_BUFFER_SIZE_def)

lemma state_bytes:
  "with_crc (set_params_data st clearBuffer) ! 10
     = ov (louver_v st) AC_LOUVERV_UNTOUCHED AC_LOUVERV_MASK (temp_int_byte (clamp_temp st) 0)"
  "with_crc (set_params_data st clearBuffer) ! 11
     = ov (louver_h st) AC_LOUVERH_UNTOUCHED AC_LOUVERH_MASK 0"
  "with_crc (set_params_data st clearBuffer) ! 12 = temp_frac_byte (clamp_temp st) 0"
  "with_crc (set_params_data st clearBuffer) ! 13
     = ov (fanSpeed st) AC_FANSPEED_UNTOUCHED AC_FANSPEED_MASK 0"
  "with_crc (set_params_data st clearBuffer) ! 14
     = ov (fanMute st) AC_FANMUTE_UNTOUCHED AC_FANMUTE_MASK
         (ov (fanTurbo st) AC_FANTURBO_UNTOUCHED AC_FANTURBO_MASK 0)"
  "with_crc (set_params_data st clearBuffer) ! 15
     = ov (iFeel st) AC_IFEEL_UNTOUCHED AC_IFEEL_MASK
         (ov (sleep st) AC_SLEEP_UNTOUCHED AC_SLEEP_MASK
            (ov (mode st) AC_MODE_UNTOUCHED AC_MODE_MASK 0))"
  "with_crc (set_params_data st clearBuffer) ! 18
     = ov (health st) AC_HEALTH_UNTOUCHED AC_HEALTH_MASK
         (ov (clean st) AC_CLEAN_UNTOUCHED AC_CLEAN_MASK
            (ov (power_st st) AC_POWER_UNTOUCHED AC_POWER_MASK 0))"
  "with_crc (set_params_data st clearBuffer) ! 20
     = ov (mildew st) AC_MILDEW_UNTOUCHED AC_MILDEW_MASK
         (ov (display st) AC_DISPLAY_UNTOUCHED AC_DISPLAY_MASK 0)"
  by (simp_all add: body_bytes clearBuffer_nth AC_BUFFER_SIZE_def)

lemma temp_int_byte_louver:
  "temp_int_byte c x AND AC_LOUVERV_MASK = x AND AC_LOUVERV_MASK"
proof (cases "temp_target_matter c")
  case False
  then show ?thesis by (simp add: temp_int_byte_def)
next
  case True
  have "((x AND NOT (NOT (mask 3))) OR push_bit 3 w) AND mask 3 = x AND mask 3" for w :: "8 word"
    by (rule bit_word_eqI) (auto simp: bit_simps)
  with True show ?thesis
    by (simp only: temp_int_byte_def AC_TEMP_TARGET_INT_PART_MASK_def AC_LOUVERV_MASK_def
          mask_F8 mask_07 if_True)
qed

lemma round_trip_louver_v:
  assumes "settable AC_LOUVERV_MASK AC_LOUVERV_UNTOUCHED lc" and "in_mask AC_LOUVERV_MASK ls"
  shows "ov lc AC_LOUVERV_UNTOUCHED AC_LOUVERV_MASK
           (temp_int_byte c (ov ls AC_LOUVERV_UNTOUCHED AC_LOUVERV_MASK (temp_int_byte st 0)))
         AND AC_LOUVERV_MASK
         = merged AC_LOUVERV_UNTOUCHED lc ls"
proof -
  have "ov ls AC_LOUVERV_UNTOUCHED AC_LOUVERV_MASK (temp_int_byte st 0) AND AC_LOUVERV_MASK
        = merged AC_LOUVERV_UNTOUCHED ls (temp_int_byte st 0 AND AC_LOUVERV_MASK)"
    using assms(2) by (simp add: ov_same in_mask_settable)
  also have "\<dots> = ls"
    using assms(2)
    by (simp add: temp_int_byte_louver merged_in_mask AC_LOUVERV_MASK_def AC_LOUVERV_UNTOUCHED_def)
  finally show ?thesis
    using assms(1) by (simp add: ov_same temp_int_byte_louver)
qed

lemma round_trip_bytes:
  assumes c: "command_ok c" and st: "state_ok st" and t: "temp_ok c st"
      and r: "parse_small (with_crc (set_params_data c (with_crc (set_params_data st clearBuffer))))
                (Some AC_HEADER_SIZE) st0 = Some r"
  shows "round_trip c st (snd r)"
proof -
  let ?d1 = "with_crc (set_params_data st clearBuffer)"
  have l: "length ?d1 = AC_BUFFER_SIZE" by simp
  note f = parse_small_eq [OF r, unfolded body_bytes [OF l] state_bytes]
  note cs = c [unfolded command_ok_def untouched_defs]
  note ss = st [unfolded state_ok_def]
  have sc: "settable AC_LOUVERV_MASK AC_LOUVERV_UNTOUCHED (louver_v c)"
    and sl: "settable AC_LOUVERV_MASK AC_LOUVERV_UNTOUCHED (louver_v st)"
    using c st by (simp_all add: command_ok_def state_ok_def in_mask_settable)
  have temp: "temp_target (snd r) = (if temp_target_matter c then temp_target c else temp_target st)"
    using f round_trip_temp [OF sc sl t] by simp
  have lv: "louver_v (snd r) = merged AC_LOUVERV_UNTOUCHED (louver_v c) (louver_v st)"
    using f round_trip_louver_v [OF sc, of "louver_v st"] ss by simp
  have lh: "louver_h (snd r) = merged AC_LOUVERH_UNTOUCHED (louver_h c) (louver_h st)"
    using f cs ss
      round_trip_1 [of AC_LOUVERH_MASK "louver_h c" "louver_h st"]
    by (simp add: untouched_defs) (simp add: mask_defs)
  have fs: "fanSpeed (snd r) = merged AC_FANSPEED_UNTOUCHED (fanSpeed c) (fanSpeed st)"
    using f cs ss
      round_trip_1 [of AC_FANSPEED_MASK "fanSpeed c" "fanSpeed st"]
    by (simp add: untouched_defs) (simp add: mask_defs)
  have ft: "fanTurbo (snd r) = merged AC_FANTURBO_UNTOUCHED (fanTurbo c) (fanTurbo st)"
    and fm: "fanMute (snd r) = merged AC_FANMUTE_UNTOUCHED (fanMute c) (fanMute st)"
    using f cs ss
      round_trip_2 [of AC_FANTURBO_MASK "fanTurbo c" AC_FANMUTE_MASK "fanMute c"
        "fanTurbo st" "fanMute st"]
    by (simp_all add: untouched_defs) (simp_all add: mask_defs)
  have md: "mode (snd r) = merged AC_MODE_UNTOUCHED (mode c) (mode st)"
    and sp: "sleep (snd r) = merged AC_SLEEP_UNTOUCHED (sleep c) (sleep st)"
    and fe: "iFeel (snd r) = merged AC_IFEEL_UNTOUCHED (iFeel c) (iFeel st)"
    using f cs ss
      round_trip_3 [of AC_MODE_MASK "mode c" AC_SLEEP_MASK "sleep c" AC_IFEEL_MASK "iFeel c"
        "mode st" "sleep st" "iFeel st"]
    by (simp_all add: untouched_defs) (simp_all add: mask_defs)
  have pw: "power_st (snd r) = merged AC_POWER_UNTOUCHED (power_st c) (power_st st)"
    and cl: "clean (snd r) = merged AC_CLEAN_UNTOUCHED (clean c) (clean st)"
    and he: "health (snd r) = merged AC_HEALTH_UNTOUCHED (health c) (health st)"
    using f cs ss
      round_trip_3 [of AC_POWER_MASK "power_st c" AC_CLEAN_MASK "clean c" AC_HEALTH_MASK "health c"
        "power_st st" "clean st" "health st"]
    by (simp_all add: untouched_defs) (simp_all add: mask_defs)
  have dp: "display (snd r) = merged AC_DISPLAY_UNTOUCHED (display c) (display st)"
    and mi: "mildew (snd r) = merged AC_MILDEW_UNTOUCHED (mildew c) (mildew st)"
    using f cs ss
      round_trip_2 [of AC_DISPLAY_MASK "display c" AC_MILDEW_MASK "mildew c"
        "display st" "mildew st"]
    by (simp_all add: untouched_defs) (simp_all add: mask_defs)
  show ?thesis
    unfolding round_trip_def
    using temp lv lh fs ft fm md sp fe pw cl he dp mi by blast
qed


lemma encode_decode_bytes:
  assumes "i < AC_SEQUENCE_MAX_LEN"
  shows "\<exists>r. parse_small
               (with_crc (set_params_data (cmd (sequence s ! i))
                  (with_crc (set_params_data (current_ac_state s) clearBuffer))))
               (Some AC_HEADER_SIZE) (clamp_temp (current_ac_state s)) = Some r
             \<and> encode_decode now i s = Some (snd r)"
proof -
  obtain r where "parse_small
               (with_crc (set_params_data (cmd (sequence s ! i))
                  (with_crc (set_params_data (current_ac_state s) clearBuffer))))
               (Some AC_HEADER_SIZE) (clamp_temp (current_ac_state s)) = Some r"
    using parse_small_Some by blast
  then show ?thesis
    using assms by (simp add: encode_decode_def fillSetCommand_outPacket)
qed

text \<open>
  Claim C2, as the code has it. The command of a step is encoded into the outgoing packet
  by \<^verbatim>\<open>_fillSetCommand\<close> and the body of that packet is decoded as a small status body.
  When every parameter of the command is untouched or within its mask, every parameter of
  the AC state is within its mask, and the target temperature that goes into the packet
  (the one of the command if it sets one, the one of the AC state otherwise) is a whole
  number between 16 and 32, then the decoded state has every parameter the command sets,
  and the value of the AC state for every parameter the command leaves untouched. The
  status of the ioniser is not among these parameters.
\<close>

theorem set_command_round_trip:
  assumes "i < AC_SEQUENCE_MAX_LEN"
      and "command_ok (cmd (sequence s ! i))"
      and "state_ok (current_ac_state s)"
      and "temp_ok (cmd (sequence s ! i)) (current_ac_state s)"
  shows "\<exists>d. encode_decode now i s = Some d
             \<and> round_trip (cmd (sequence s ! i)) (current_ac_state s) d"
proof -
  from encode_decode_bytes [OF assms(1)] obtain r where
      p: "parse_small
               (with_crc (set_params_data (cmd (sequence s ! i))
                  (with_crc (set_params_data (current_ac_state s) clearBuffer))))
               (Some AC_HEADER_SIZE) (clamp_temp (current_ac_state s)) = Some r"
      and e: "encode_decode now i s = Some (snd r)"
    by blast
  from round_trip_bytes [OF assms(2-4) p] e show ?thesis by simp
qed

lemma command_loaded_facts:
  "cmd (sequence command_loaded ! 2) = heat_21_cmd"
  "current_ac_state command_loaded = cooling_state"
  "cmd (sequence half_degree_loaded ! 2) = half_degree_cmd"
  "current_ac_state half_degree_loaded = cooling_state"
  by (simp_all add: command_loaded_def half_degree_loaded_def func_item_def initAC_def
        clearSequence_def clearOutPacket_def)

theorem set_command_round_trip_witness:
  "2 < AC_SEQUENCE_MAX_LEN
   \<and> command_ok (cmd (sequence command_loaded ! 2))
   \<and> state_ok (current_ac_state command_loaded)
   \<and> temp_ok (cmd (sequence command_loaded ! 2)) (current_ac_state command_loaded)
   \<and> map_option mode (encode_decode 5 2 command_loaded) = Some 0x80
   \<and> map_option temp_target (encode_decode 5 2 command_loaded) = Some 21
   \<and> map_option power_st (encode_decode 5 2 command_loaded) = Some 0x20
   \<and> map_option fanSpeed (encode_decode 5 2 command_loaded) = Some 0x60
   \<and> map_option louver_v (encode_decode 5 2 command_loaded) = Some 0x07"
proof -
  have h1: "2 < AC_SEQUENCE_MAX_LEN"
    by (simp add: AC_SEQUENCE_MAX_LEN_def)
  have h2: "command_ok (cmd (sequence command_loaded ! 2))"
    by (simp add: command_loaded_facts heat_21_cmd_def clearCommand_def command_ok_def
          settable_def in_mask_def mask_defs untouched_defs)
  have h3: "state_ok (current_ac_state command_loaded)"
    by (simp add: command_loaded_facts cooling_state_def state_ok_def in_mask_def mask_defs)
  have h4: "temp_ok (cmd (sequence command_loaded ! 2)) (current_ac_state command_loaded)"
    by (simp add: command_loaded_facts heat_21_cmd_def temp_ok_def whole_16_32_def)
  from set_command_round_trip [OF h1 h2 h3 h4, of 5] obtain d where
      e: "encode_decode 5 2 command_loaded = Some d"
      and r: "round_trip heat_21_cmd cooling_state d"
    by (auto simp: command_loaded_facts)
  from r have "mode d = 0x80" "temp_target d = 21" "power_st d = 0x20" "fanSpeed d = 0x60"
      "louver_v d = 0x07"
    by (simp_all add: round_trip_def merged_def heat_21_cmd_def cooling_state_def clearCommand_def
          untouched_defs)
  with e h1 h2 h3 h4 show ?thesis by simp
qed

text \<open>
  Claim C2 as stated has every untouched parameter decode to the value of the AC state, for
  every command and AC state. The status of the ioniser is a parameter of the AC state
  that the packet of a command does not carry: here the AC state has it on, the command
  leaves it untouched, and it decodes as off.
\<close>

theorem ioniser_status_counterexample:
  "health_status (current_ac_state command_loaded) = AC_HEALTH_STATUS_ON
   \<and> health_status (cmd (sequence command_loaded ! 2)) = AC_HEALTH_STATUS_UNTOUCHED
   \<and> map_option health_status (encode_decode 5 2 command_loaded) = Some 0"
proof -
  have i: "2 < AC_SEQUENCE_MAX_LEN"
    by (simp add: AC_SEQUENCE_MAX_LEN_def)
  from encode_decode_bytes [OF i, of command_loaded 5] obtain r where
      p: "parse_small (with_crc (set_params_data heat_21_cmd
             (with_crc (set_params_data cooling_state clearBuffer))))
           (Some AC_HEADER_SIZE) (clamp_temp cooling_state) = Some r"
      and e: "encode_decode 5 2 command_loaded = Some (snd r)"
    by (auto simp: command_loaded_facts)
  have l: "length (with_crc (set_params_data cooling_state clearBuffer)) = AC_BUFFER_SIZE"
    by simp
  note f = parse_small_eq [OF p, unfolded body_bytes [OF l] state_bytes]
  from f have "health_status (snd r) = 0"
    by (simp add: ov_def heat_21_cmd_def cooling_state_def clearCommand_def mask_defs
          untouched_defs)
  with e show ?thesis
    by (simp add: command_loaded_facts cooling_state_def heat_21_cmd_def clearCommand_def
          AC_HEALTH_STATUS_ON_def)
qed

text \<open>
  The fraction of a target temperature does not make the round trip either. The encoder
  clears the high bit of the fraction byte and sets its lowest bit, where the decoder
  reads the high bit: a command for 27.5 degrees decodes as 27 degrees.
\<close>

lemma half_degree_is_dropped:
  "map_option temp_target (encode_decode 5 2 half_degree_loaded) = Some 27"
proof -
  have i: "2 < AC_SEQUENCE_MAX_LEN"
    by (simp add: AC_SEQUENCE_MAX_LEN_def)
  from encode_decode_bytes [OF i, of half_degree_loaded 5] obtain r where
      p: "parse_small (with_crc (set_params_data half_degree_cmd
             (with_crc (set_params_data cooling_state clearBuffer))))
           (Some AC_HEADER_SIZE) (clamp_temp cooling_state) = Some r"
      and e: "encode_decode 5 2 half_degree_loaded = Some (snd r)"
    by (auto simp: command_loaded_facts)
  have l: "length (with_crc (set_params_data cooling_state clearBuffer)) = AC_BUFFER_SIZE"
    by simp
  note f = parse_small_eq [OF p, unfolded body_bytes [OF l] state_bytes]
  have c: "clamp_temp half_degree_cmd = half_degree_cmd" "clamp_temp cooling_state = cooling_state"
    by (simp_all add: clamp_temp_def half_degree_cmd_def cooling_state_def Let_def
          AC_MIN_TEMPERATURE_def AC_MAX_TEMPERATURE_def)
  have "\<lfloor>55 / 2 :: rat\<rfloor> = 27"
    by (rule floor_unique) simp_all
  moreover have "\<lfloor>24 :: rat\<rfloor> = 24"
    by simp
  ultimately have fl: "\<lfloor>55 / 2 :: rat\<rfloor> = 27" "\<lfloor>24 :: rat\<rfloor> = 24"
    by simp_all
  from f [unfolded c] have "temp_target (snd r) = 27"
    by (simp add: ov_def temp_int_byte_def temp_frac_byte_def target_temp_def fl
          half_degree_cmd_def cooling_state_def clearCommand_def mask_defs untouched_defs)
  with e show ?thesis by simp
qed

subsection \<open>The AC state in a pass of the loop\<close>

lemma doParsingPacket_damaged:
  assumes "checkCRC (inPacket s) = Some (False, p)"
  shows "doParsingPacket now s = Some (s\<lparr>inPacket := clearPacket, ac_state := ACSM_IDLE\<rparr>)"
  using assms by (simp add: doParsingPacket_def setStateMachineState_eq clearInPacket_def)

lemma ac_kept_refl [simp]: "ac_kept s s"
  by (simp add: ac_kept_def)

lemma ac_kept_trans: "ac_kept s s1 \<Longrightarrow> ac_kept s1 s2 \<Longrightarrow> ac_kept s s2"
  by (auto simp: ac_kept_def clamp_temp_idem)

lemma seq_frame_ac_kept: "seq_frame s s' \<Longrightarrow> ac_kept s s'"
  by (simp add: seq_frame_def ac_kept_def)

lemma ac_kept_upd [simp]:
  "ac_kept s (s'\<lparr>dataMillis := a\<rparr>) = ac_kept s s'"
  "ac_kept s (s'\<lparr>cnt := b\<rparr>) = ac_kept s s'"
  "ac_kept s (s'\<lparr>ac_state := c\<rparr>) = ac_kept s s'"
  "ac_kept s (s'\<lparr>inPacket := d\<rparr>) = ac_kept s s'"
  "ac_kept s (s'\<lparr>outPacket := e\<rparr>) = ac_kept s s'"
  "ac_kept s (s'\<lparr>sequence := f\<rparr>) = ac_kept s s'"
  "ac_kept s (s'\<lparr>sequence_current_step := g\<rparr>) = ac_kept s s'"
  "ac_kept s (s'\<lparr>startupSequenceComlete := h\<rparr>) = ac_kept s s'"
  "ac_kept s (s'\<lparr>serial_rx := i\<rparr>) = ac_kept s s'"
  "ac_kept s (s'\<lparr>serial_tx := j\<rparr>) = ac_kept s s'"
  by (simp_all add: ac_kept_def)

lemma ac_kept_upd_left [simp]:
  "ac_kept (s\<lparr>dataMillis := a\<rparr>) s' = ac_kept s s'"
  "ac_kept (s\<lparr>inPacket := d\<rparr>) s' = ac_kept s s'"
  "ac_kept (s\<lparr>outPacket := e\<rparr>) s' = ac_kept s s'"
  by (simp_all add: ac_kept_def)

lemma doReceivingPacketState_kept: "ac_kept s (doReceivingPacketState now s)"
  by (simp add: doReceivingPacketState_def setStateMachineState_eq clearInPacket_def Let_def
        split: prod.split receive_end.split)

lemma doSendingPacketState_kept: "ac_kept s (doSendingPacketState s)"
  by (simp add: doSendingPacketState_def setStateMachineState_eq clearOutPacket_def)

lemma doSequence_kept: "doSequence now s = Some s' \<Longrightarrow> ac_kept s s'"
  by (rule seq_frame_ac_kept) (rule doSequence_frame)

lemma startupSequence_kept: "startupSequence s = Some (r, s') \<Longrightarrow> ac_kept s s'"
  by (rule seq_frame_ac_kept) (rule startupSequence_frame)

lemma doIdleState_kept:
  assumes "doIdleState now s = Some s'"
  shows "ac_kept s s'"
proof -
  from assms obtain s1 where q: "doSequence now s = Some s1"
      and r: "(case serial_rx s1 of
                 [] \<Rightarrow> Some (if msec (outPacket s1) > 0
                             then setStateMachineState ACSM_SENDING_PACKET s1 else s1)
               | b # bs \<Rightarrow>
                   if b = AC_PACKET_START_BYTE
                   then Some (setStateMachineState ACSM_RECEIVING_PACKET
                                ((clearInPacket s1)\<lparr>inPacket := clearPacket\<lparr>msec := now\<rparr>\<rparr>))
                   else do {
                     (rest, p) \<leftarrow> idle_loop (b # bs) (inPacket s1);
                     Some (s1\<lparr>serial_rx := rest, inPacket := p\<rparr>)
                   }) = Some s'"
    by (auto simp: doIdleState_def bind_eq_Some_conv)
  from r have "ac_kept s1 s'"
    by (auto simp: setStateMachineState_eq clearInPacket_def bind_eq_Some_conv
             split: list.splits if_splits)
  with doSequence_kept [OF q] show ?thesis by (rule ac_kept_trans)
qed

lemma ping_answer_kept:
  assumes "ping_answer now s = Some s'"
  shows "ac_kept s s'"
  using assms
  by (auto simp: ping_answer_def Let_def bind_eq_Some_conv clearOutPacket_def
        setStateMachineState_eq split: if_splits dest!: startupSequence_kept)

lemma dispatch_packet_kept:
  assumes "dispatch_packet now s = Some s'" and "packet_type (inPacket s) \<noteq> AC_PTYPE_INFO"
  shows "ac_kept s s'"
  using assms
  by (auto simp: dispatch_packet_def setStateMachineState_eq clearInPacket_def
           split: if_splits dest: ping_answer_kept)

lemma doParsingPacket_kept:
  assumes "doParsingPacket now s = Some s'"
      and "\<not> (checksum_ok (inPacket s) \<and> packet_type (inPacket s) = AC_PTYPE_INFO)"
  shows "ac_kept s s'"
proof -
  from assms(1) obtain ok p where c: "checkCRC (inPacket s) = Some (ok, p)"
    by (auto simp: doParsingPacket_def bind_eq_Some_conv)
  have k: "checksum_ok (inPacket s) = ok"
    using c by (simp add: checksum_ok_def)
  show ?thesis
  proof (cases ok)
    case False
    with assms(1) c show ?thesis
      by (auto simp: doParsingPacket_damaged)
  next
    case True
    with assms(1) c obtain s1 s2 where
        d: "dispatch_packet now (s\<lparr>inPacket := p\<rparr>) = Some s1"
        and q: "(if hasSequence s1 then doSequence now s1 else Some s1) = Some s2"
        and e: "s' = clearInPacket s2"
      by (auto simp: doParsingPacket_def bind_eq_Some_conv)
    have "packet_type (inPacket (s\<lparr>inPacket := p\<rparr>)) \<noteq> AC_PTYPE_INFO"
      using assms(2) k True checkCRC_packet_type [OF c] by simp
    with d have "ac_kept (s\<lparr>inPacket := p\<rparr>) s1" by (rule dispatch_packet_kept)
    then have a: "ac_kept s s1" by simp
    have b: "ac_kept s1 s2"
      using q by (auto split: if_splits dest: doSequence_kept)
    from a b have "ac_kept s s2" by (rule ac_kept_trans)
    with e show ?thesis by (simp add: clearInPacket_def)
  qed
qed

lemma loop_kept:
  assumes "loop now s = Some s'" and "\<not> decodes_info s"
  shows "ac_kept s s'"
proof (cases "hw_initialized s")
  case False
  with assms(1) show ?thesis by (simp add: loop_def)
next
  case True
  with assms(1) obtain s1 where
      s1: "(case ac_state s of
              ACSM_RECEIVING_PACKET \<Rightarrow> Some (doReceivingPacketState now s)
            | ACSM_PARSING_PACKET \<Rightarrow> doParsingPacket now s
            | ACSM_SENDING_PACKET \<Rightarrow> Some (doSendingPacketState s)
            | ACSM_IDLE \<Rightarrow> doIdleState now s) = Some s1"
      and r: "(if unat (now - dataMillis s1) > AC_STATES_REQUEST_INTERVAL
               then do {
                 (r, s2) \<leftarrow> startupSequence (s1\<lparr>dataMillis := now\<rparr>);
                 let c = cnt s2 + 1
                 in Some (s2\<lparr>cnt := (if c > 7 then 0 else c)\<rparr>)
               }
               else Some s1) = Some s'"
    by (auto simp: loop_def bind_eq_Some_conv)
  have a: "ac_kept s s1"
  proof (cases "ac_state s")
    case ACSM_IDLE
    with s1 show ?thesis by (auto dest: doIdleState_kept)
  next
    case ACSM_RECEIVING_PACKET
    with s1 show ?thesis by (auto simp: doReceivingPacketState_kept)
  next
    case ACSM_PARSING_PACKET
    with s1 assms(2) True show ?thesis
      by (auto simp: decodes_info_def dest: doParsingPacket_kept)
  next
    case ACSM_SENDING_PACKET
    with s1 show ?thesis by (auto simp: doSendingPacketState_kept)
  qed
  have b: "ac_kept s1 s'"
  proof (cases "unat (now - dataMillis s1) > AC_STATES_REQUEST_INTERVAL")
    case False
    with r show ?thesis by simp
  next
    case True
    with r obtain r2 s2 where
        "startupSequence (s1\<lparr>dataMillis := now\<rparr>) = Some (r2, s2)"
        "s' = s2\<lparr>cnt := (if cnt s2 + 1 > 7 then 0 else cnt s2 + 1)\<rparr>"
      by (auto simp: bind_eq_Some_conv Let_def)
    then show ?thesis
      using startupSequence_kept [of "s1\<lparr>dataMillis := now\<rparr>" r2 s2] by simp
  qed
  from a b show ?thesis by (rule ac_kept_trans)
qed

lemma seq_put_current:
  "seq_put i it s = Some s'
   \<Longrightarrow> current_ac_state s' = current_ac_state s \<and> published s' = published s"
  by (auto simp: seq_put_def split: if_splits)

lemma set_func_current:
  "set_func i f s = Some s'
   \<Longrightarrow> current_ac_state s' = current_ac_state s \<and> published s' = published s"
  by (auto simp: set_func_def bind_eq_Some_conv dest: seq_put_current)

lemma set_cmd_current:
  "set_cmd i c s = Some s'
   \<Longrightarrow> current_ac_state s' = current_ac_state s \<and> published s' = published s"
  by (auto simp: set_cmd_def bind_eq_Some_conv dest: seq_put_current)

lemma commandSequence_current:
  assumes "commandSequence c s = Some s'"
  shows "current_ac_state s' = current_ac_state s \<and> published s' = published s"
proof -
  define step where "step = (if hasSequence s then scan_step (sequence s) 0 0 else 0)"
  have e: "commandSequence c s =
     (if hasSequence s \<and> step \<ge> AC_SEQUENCE_MAX_LEN - 1 then Some s
      else do {
        s0 \<leftarrow> set_func step AirCon_sq_requestSmallStatus s;
        s1 \<leftarrow> set_func (step + 1) AirCon_sq_controlSmallStatus s0;
        s2 \<leftarrow> set_func (step + 2) AirCon_sq_requestDoCommand s1;
        s2' \<leftarrow> set_cmd (step + 2) c s2;
        s3 \<leftarrow> set_func (step + 3) AirCon_sq_controlDoCommand s2';
        s4 \<leftarrow> set_func (step + 4) AirCon_sq_requestSmallStatus s3;
        set_func (step + 5) AirCon_sq_controlSmallStatus s4
      })"
    unfolding commandSequence_def Let_def step_def ..
  show ?thesis
  proof (cases "hasSequence s \<and> step \<ge> AC_SEQUENCE_MAX_LEN - 1")
    case True
    from assms [unfolded e if_P [OF True]] show ?thesis by simp
  next
    case False
    from assms [unfolded e if_not_P [OF False]] obtain s0 s1 s2 s2' s3 s4 where
        "set_func step AirCon_sq_requestSmallStatus s = Some s0"
        "set_func (step + 1) AirCon_sq_controlSmallStatus s0 = Some s1"
        "set_func (step + 2) AirCon_sq_requestDoCommand s1 = Some s2"
        "set_cmd (step + 2) c s2 = Some s2'"
        "set_func (step + 3) AirCon_sq_controlDoCommand s2' = Some s3"
        "set_func (step + 4) AirCon_sq_requestSmallStatus s3 = Some s4"
        "set_func (step + 5) AirCon_sq_controlSmallStatus s4 = Some s'"
      by (auto simp: bind_eq_Some_conv)
    then show ?thesis
      by (auto dest!: set_func_current set_cmd_current)
  qed
qed

subsection \<open>A set-command step while the AC state holds a temperature out of range\<close>

lemma fillSetCommand_sequence_packet:
  assumes "i < AC_SEQUENCE_MAX_LEN" and "length (sequence s) = AC_SEQUENCE_MAX_LEN"
  shows "\<exists>s'. fillSetCommand now True (Ref_sequence_packet i) (Ref_sequence_cmd i) s = Some s'
           \<and> current_ac_state s' = clamp_temp (current_ac_state s)
           \<and> outPacket s' = outPacket s
           \<and> sequence_current_step s' = sequence_current_step s
           \<and> length (sequence s') = AC_SEQUENCE_MAX_LEN"
  using assms
  by (simp add: fillSetCommand_def fill_from_ref_def fill_from_eq seq_get_def seq_put_def
        clearPacket_def clearBuffer_def AC_BUFFER_SIZE_def)

lemma sq_requestDoCommand_clamps:
  assumes i: "unat (sequence_current_step s) < AC_SEQUENCE_MAX_LEN"
      and l: "length (sequence s) = AC_SEQUENCE_MAX_LEN"
      and b: "bytesLoaded (outPacket s) = 0"
  shows "\<exists>s'. sq_requestDoCommand now s = Some (True, s')
           \<and> current_ac_state s' = clamp_temp (current_ac_state s)
           \<and> msec (outPacket s') = now"
proof -
  let ?i = "unat (sequence_current_step s)"
  obtain s1 where s1: "fillSetCommand now True Ref_outPacket (Ref_sequence_cmd ?i) s = Some s1"
      and c1: "current_ac_state s1 = clamp_temp (current_ac_state s)"
      and o1: "msec (outPacket s1) = now"
      and i1: "sequence_current_step s1 = sequence_current_step s"
      and l1: "length (sequence s1) = AC_SEQUENCE_MAX_LEN"
    using fillSetCommand_outPacket [OF i, of now s] l by simp
  obtain s2 where
      s2: "fillSetCommand now True (Ref_sequence_packet ?i) (Ref_sequence_cmd ?i) s1 = Some s2"
      and c2: "current_ac_state s2 = clamp_temp (current_ac_state s1)"
      and o2: "outPacket s2 = outPacket s1"
      and i2: "sequence_current_step s2 = sequence_current_step s1"
      and l2: "length (sequence s2) = AC_SEQUENCE_MAX_LEN"
    using fillSetCommand_sequence_packet [OF i l1, of now] by blast
  obtain s3 where s3: "set_item_packet_type AC_SPT_SENT_PACKET s2 = Some s3"
      and c3: "current_ac_state s3 = current_ac_state s2"
      and o3: "outPacket s3 = outPacket s2"
    using i i1 i2 by (simp add: set_item_packet_type_def seq_get_def seq_put_def)
  have "sq_requestDoCommand now s = Some (True, next_step s3)"
    using b s1 s2 s3 i1 by (simp add: sq_requestDoCommand_def)
  moreover have "current_ac_state (next_step s3) = clamp_temp (current_ac_state s)"
    using c1 c2 c3 by (simp add: next_step_def clamp_temp_idem)
  moreover have "msec (outPacket (next_step s3)) = now"
    using o1 o2 o3 by (simp add: next_step_def)
  ultimately show ?thesis by blast
qed

lemma doSequence_request_command:
  assumes h: "hasSequence s"
      and i: "unat (sequence_current_step s) < AC_SEQUENCE_MAX_LEN"
      and l: "length (sequence s) = AC_SEQUENCE_MAX_LEN"
      and b: "bytesLoaded (outPacket s) = 0"
      and t: "item_type (sequence s ! unat (sequence_current_step s)) = AC_SIT_FUNC"
      and f: "func (sequence s ! unat (sequence_current_step s)) = Some AirCon_sq_requestDoCommand"
      and m: "item_msec (sequence s ! unat (sequence_current_step s)) = 0"
      and o: "timeout (sequence s ! unat (sequence_current_step s)) = 0"
  shows "\<exists>s'. doSequence now s = Some s'
           \<and> current_ac_state s' = clamp_temp (current_ac_state s)
           \<and> msec (outPacket s') = now"
proof -
  let ?i = "unat (sequence_current_step s)"
  let ?it = "default_timeout (stamp_item now (sequence s ! ?i))"
  let ?s1 = "s\<lparr>sequence := (sequence s)[?i := ?it]\<rparr>"
  have n: "\<not> timed_out now ?it"
    using m o
    by (simp add: timed_out_def default_timeout_def stamp_item_def AC_SEQUENCE_DEFAULT_TIMEOUT_def)
  obtain s' where c: "sq_requestDoCommand now ?s1 = Some (True, s')"
      and "current_ac_state s' = clamp_temp (current_ac_state ?s1)"
      and "msec (outPacket s') = now"
    using sq_requestDoCommand_clamps [of ?s1 now] i l b by auto
  moreover have "doSequence now s = Some s'"
    using h i t f n c by (simp add: doSequence_def Let_def)
  ultimately show ?thesis by simp
qed

lemma loop_request_command:
  assumes "hw_initialized s" and "ac_state s = ACSM_IDLE" and "serial_rx s = []"
      and "unat (now - dataMillis s) \<le> AC_STATES_REQUEST_INTERVAL"
      and "hasSequence s"
      and "unat (sequence_current_step s) < AC_SEQUENCE_MAX_LEN"
      and "length (sequence s) = AC_SEQUENCE_MAX_LEN"
      and "bytesLoaded (outPacket s) = 0"
      and "item_type (sequence s ! unat (sequence_current_step s)) = AC_SIT_FUNC"
      and "func (sequence s ! unat (sequence_current_step s)) = Some AirCon_sq_requestDoCommand"
      and "item_msec (sequence s ! unat (sequence_current_step s)) = 0"
      and "timeout (sequence s ! unat (sequence_current_step s)) = 0"
  shows "\<exists>s'. loop now s = Some s' \<and> current_ac_state s' = clamp_temp (current_ac_state s)"
proof -
  obtain s1 where q: "doSequence now s = Some s1"
      and c: "current_ac_state s1 = clamp_temp (current_ac_state s)"
    using doSequence_request_command [OF assms(5-12), of now] by blast
  from doSequence_frame [OF q] have r: "serial_rx s1 = []" and d: "dataMillis s1 = dataMillis s"
    using assms(3) by (simp_all add: seq_frame_def)
  let ?s2 = "if msec (outPacket s1) > 0 then setStateMachineState ACSM_SENDING_PACKET s1 else s1"
  have i: "doIdleState now s = Some ?s2"
    using q r by (simp add: doIdleState_def)
  have "dataMillis ?s2 = dataMillis s" "current_ac_state ?s2 = clamp_temp (current_ac_state s)"
    using c d by (simp_all add: setStateMachineState_eq)
  then show ?thesis
    using assms(1,2,4) i by (simp add: loop_def)
qed

lemma cold_idle_facts:
  "hw_initialized cold_idle" "ac_state cold_idle = ACSM_IDLE" "serial_rx cold_idle = []"
  "inPacket cold_idle = clearPacket" "dataMillis cold_idle = 0"
  "hasSequence cold_idle" "sequence_current_step cold_idle = 2"
  "length (sequence cold_idle) = AC_SEQUENCE_MAX_LEN"
  "bytesLoaded (outPacket cold_idle) = 0"
  "sequence cold_idle ! 2 = (func_item AirCon_sq_requestDoCommand)\<lparr>cmd := heat_21_cmd\<rparr>"
  "current_ac_state cold_idle = cold_state"
  by (simp_all add: cold_idle_def command_loaded_def initAC_def clearSequence_def
        clearOutPacket_def clearPacket_def hasSequence_def func_item_def AC_SEQUENCE_MAX_LEN_def)

lemma cold_state_clamped: "clamp_temp cold_state = cold_state\<lparr>temp_target := 16\<rparr>"
  by (simp add: clamp_temp_def cold_state_def cooling_state_def Let_def AC_MIN_TEMPERATURE_def
        AC_MAX_TEMPERATURE_def)

lemma loop_cold_idle:
  "\<exists>s'. loop 5 cold_idle = Some s' \<and> current_ac_state s' = cold_state\<lparr>temp_target := 16\<rparr>"
  using loop_request_command [of cold_idle 5]
  by (simp add: cold_idle_facts cold_state_clamped func_item_def empty_item_def
        AC_SEQUENCE_MAX_LEN_def AC_STATES_REQUEST_INTERVAL_def)

lemma commandSequence_startup_loaded:
  "\<exists>s'. commandSequence power_on_cmd startup_loaded = Some s'"
proof -
  have h: "hasSequence startup_loaded"
    by (simp add: hasSequence_def startup_loaded_def func_item_def)
  show ?thesis
    unfolding commandSequence_def scan_step_loaded [OF h]
    using h
    by (simp add: set_func_def set_cmd_def seq_get_def seq_put_def AC_SEQUENCE_MAX_LEN_def)
qed

text \<open>
  Claim C8, as the code has it. A parsing step on a packet whose checksum does not agree
  with the two bytes stored after the body completes, and all it does is to reset the
  incoming packet and to make the state machine idle: no packet is dispatched, the AC state
  and the outgoing packet are as before, and nothing is handed to \<^verbatim>\<open>stateChanged()\<close>. A
  pass of \<^verbatim>\<open>loop()\<close> that does not parse an info packet with a correct checksum hands
  nothing to \<^verbatim>\<open>stateChanged()\<close> and leaves the AC state as it is, but for its target
  temperature, which the encoder of a set-command packet brings into the range of 16 to 32
  degrees. \<^verbatim>\<open>commandSequence\<close> leaves the AC state as it is.
\<close>

theorem damaged_packet_leaves_ac_state:
  "(map_option fst (checkCRC (inPacket s)) = Some False
      \<longrightarrow> doParsingPacket now s = Some (s\<lparr>inPacket := clearPacket, ac_state := ACSM_IDLE\<rparr>))
   \<and> (loop now s = Some s' \<and> \<not> decodes_info s \<longrightarrow> ac_kept s s')
   \<and> (commandSequence c s = Some s''
      \<longrightarrow> current_ac_state s'' = current_ac_state s \<and> published s'' = published s)"
proof (intro conjI impI)
  assume "map_option fst (checkCRC (inPacket s)) = Some False"
  then obtain p where "checkCRC (inPacket s) = Some (False, p)" by auto
  then show "doParsingPacket now s = Some (s\<lparr>inPacket := clearPacket, ac_state := ACSM_IDLE\<rparr>)"
    by (rule doParsingPacket_damaged)
next
  assume "loop now s = Some s' \<and> \<not> decodes_info s"
  then show "ac_kept s s'" by (auto intro: loop_kept)
next
  assume a: "commandSequence c s = Some s''"
  from commandSequence_current [OF a] show "current_ac_state s'' = current_ac_state s" ..
  from commandSequence_current [OF a] show "published s'' = published s" ..
qed

theorem damaged_packet_leaves_ac_state_witness:
  "map_option fst (checkCRC (inPacket parsing_damaged)) = Some False
   \<and> doParsingPacket 5 parsing_damaged
       = Some (parsing_damaged\<lparr>inPacket := clearPacket, ac_state := ACSM_IDLE\<rparr>)
   \<and> \<not> decodes_info cold_idle
   \<and> map_option (ac_kept cold_idle) (loop 5 cold_idle) = Some True
   \<and> map_option current_ac_state (commandSequence power_on_cmd startup_loaded)
       = Some (current_ac_state startup_loaded)"
proof -
  have k: "map_option fst (checkCRC (inPacket parsing_damaged)) = Some False"
    by (simp add: parsing_damaged_def damaged_packet_checksum)
  obtain s1 where s1: "loop 5 cold_idle = Some s1"
    using loop_cold_idle by blast
  have n: "\<not> decodes_info cold_idle"
    by (simp add: decodes_info_def cold_idle_facts)
  obtain s2 where s2: "commandSequence power_on_cmd startup_loaded = Some s2"
    using commandSequence_startup_loaded by blast
  from damaged_packet_leaves_ac_state [where s = parsing_damaged and now = 5]
    damaged_packet_leaves_ac_state [where s = cold_idle and now = 5 and s' = s1]
    damaged_packet_leaves_ac_state [where s = startup_loaded and c = power_on_cmd and s'' = s2]
  show ?thesis using k s1 n s2 by simp
qed

text \<open>
  Claim C8 as stated has the AC state changed by nothing but the decoding of an info
  packet with a correct checksum. Here the component is idle, no byte waits in the UART
  and the incoming packet is empty; the AC state holds a target temperature of 8 degrees,
  and the command sequence is at the step that sends the command. The pass of the loop
  fills the outgoing packet, and the AC state has a target temperature of 16 degrees after
  it.
\<close>

theorem idle_pass_changes_ac_state_counterexample:
  "ac_state cold_idle = ACSM_IDLE
   \<and> serial_rx cold_idle = []
   \<and> inPacket cold_idle = clearPacket
   \<and> temp_target (current_ac_state cold_idle) = 8
   \<and> map_option current_ac_state (loop 5 cold_idle) = Some (cold_state\<lparr>temp_target := 16\<rparr>)"
proof -
  obtain s1 where "loop 5 cold_idle = Some s1"
      and "current_ac_state s1 = cold_state\<lparr>temp_target := 16\<rparr>"
    using loop_cold_idle by blast
  then show ?thesis
    by (simp add: cold_idle_facts cold_state_def)
qed

end
